theory Spec2Isabelle
  imports Complex_Main
begin

section \<open>The web pager: data model\<close>

text \<open>
  The component of \<^verbatim>\<open>src/PagerView.web.tsx\<close> is embedded as explicit state passing.
  A JavaScript \<^verbatim>\<open>number\<close> is a \<^typ>\<open>real\<close> (rounding, \<^verbatim>\<open>NaN\<close> and the infinities
  are not represented); the number of children is a \<^typ>\<open>nat\<close>. Each \<^verbatim>\<open>useRef\<close> cell is a
  field of the record \<open>pager\<close>; the scroller element and the style of the document body
  are fields as well, since the handlers read and write them. What the component sends
  out (the three observer callbacks and the \<^verbatim>\<open>el.scrollTo\<close> command) is appended to the
  log \<open>emitted\<close>, oldest entry first.
\<close>

datatype layout_dir = Ltr | Rtl

datatype orient = Horizontal | Vertical

datatype scroll_state = Idle | Dragging | Settling

text \<open>The only exception of the source: \<^verbatim>\<open>scrollerRef.current!\<close> read while it is null.\<close>

datatype error = TypeError

text \<open>
  The props the component destructures, the presence of each optional observer, and
  \<^verbatim>\<open>childrenArray.length\<close>.
\<close>

record props =
  scrollEnabled :: bool
  layoutDirection :: layout_dir
  initialPage :: real
  orientation :: orient
  pageMargin :: real
  has_onPageScroll :: bool
  has_onPageSelected :: bool
  has_onPageScrollStateChanged :: bool
  pageCount :: nat

text \<open>
  The scroller \<^verbatim>\<open>div\<close>: the fields of the element that the handlers use, and the
  pointer ids it has captured.
\<close>

record element =
  clientWidth :: real
  scrollLeft :: real
  cursor :: string
  captured :: "nat set"

datatype emitted_event =
    PageScroll int real
  | PageSelected real
  | PageScrollStateChanged scroll_state
  | ScrollToCmd real bool
  | Uncaught error

text \<open>
  \<open>timers\<close> are the pending timeouts of the window, in the order they were set: each
  with its id, the time it is due, and the props of the render that set it, since the
  callback handed to \<^verbatim>\<open>window.setTimeout\<close> is a closure of that render. \<open>now\<close> is the
  clock in milliseconds.
\<close>

record pager =
  scrollerRef :: "element option"
  bodyUserSelect :: string
  scrollEnabledRef :: bool
  draggingRef :: bool
  startRef :: "(real \<times> real) option"
  restoreRef :: "(string \<times> string) option"
  currentIndexRef :: real
  settleTimer :: "nat option"
  timers :: "(nat \<times> nat \<times> props) list"
  nextTimerId :: nat
  now :: nat
  emitted :: "emitted_event list"

type_synonym outcome = "(error \<times> pager) + pager"

section \<open>The helpers of the component\<close>

definition clamp :: "real \<Rightarrow> real \<Rightarrow> real \<Rightarrow> real" where
  "clamp v a b = max a (min b v)"

definition emit :: "emitted_event \<Rightarrow> pager \<Rightarrow> pager" where
  "emit ev s = s\<lparr>emitted := emitted s @ [ev]\<rparr>"

text \<open>
  \<^verbatim>\<open>getMetrics\<close> dereferences \<^verbatim>\<open>scrollerRef.current\<close> without a check, so it throws
  when the scroller is not mounted. The state at the moment of the throw is kept: what
  was emitted before it stays emitted. For a number, \<^verbatim>\<open>pageMargin || 0\<close> is the page
  margin itself.
\<close>

definition getMetrics :: "props \<Rightarrow> pager \<Rightarrow> (error \<times> pager) + (element \<times> real \<times> real \<times> real)" where
  "getMetrics p s =
     (case scrollerRef s of
        None \<Rightarrow> Inl (TypeError, s)
      | Some el \<Rightarrow>
          (let extent = clientWidth el;
               step = extent + pageMargin p;
               raw = abs (scrollLeft el)
           in Inr (el, extent, step, raw)))"

definition onPageSelected :: "props \<Rightarrow> real \<Rightarrow> pager \<Rightarrow> pager" where
  "onPageSelected p i s = (if has_onPageSelected p then emit (PageSelected i) s else s)"

definition scrollTo :: "props \<Rightarrow> real \<Rightarrow> bool \<Rightarrow> pager \<Rightarrow> pager" where
  "scrollTo p index animated s =
     (case scrollerRef s of
        None \<Rightarrow> s
      | Some el \<Rightarrow>
          (let extent = clientWidth el;
               step = extent + pageMargin p;
               i = clamp index 0 (max 0 (real (pageCount p) - 1));
               pos = i * step;
               left = (if layoutDirection p = Rtl then - pos else pos);
               s1 = emit (ScrollToCmd left animated) s
           in if currentIndexRef s1 \<noteq> i
              then onPageSelected p i (s1\<lparr>currentIndexRef := i\<rparr>)
              else s1))"

definition emitState :: "props \<Rightarrow> scroll_state \<Rightarrow> pager \<Rightarrow> pager" where
  "emitState p st s =
     (if has_onPageScrollStateChanged p then emit (PageScrollStateChanged st) s else s)"

definition clearSettleTimer :: "pager \<Rightarrow> pager" where
  "clearSettleTimer s =
     (case settleTimer s of
        None \<Rightarrow> s
      | Some t \<Rightarrow> s\<lparr>timers := filter (\<lambda>pending. fst pending \<noteq> t) (timers s), settleTimer := None\<rparr>)"

definition startSettleTimer :: "props \<Rightarrow> pager \<Rightarrow> pager" where
  "startSettleTimer p s =
     (let s1 = clearSettleTimer s;
          t = nextTimerId s1
      in s1\<lparr>timers := timers s1 @ [(t, now s1 + 120, p)],
            nextTimerId := t + 1,
            settleTimer := Some t\<rparr>)"

definition emitPageScroll :: "props \<Rightarrow> pager \<Rightarrow> outcome" where
  "emitPageScroll p s =
     (if \<not> has_onPageScroll p then Inr s
      else case getMetrics p s of
        Inl e \<Rightarrow> Inl e
      | Inr (el, extent, step, raw) \<Rightarrow>
          if step = 0 then Inr s
          else (let f = raw / step;
                    position = floor f;
                    offset = clamp (f - of_int position) 0 1
                in Inr (emit (PageScroll position offset) s)))"

text \<open>
  \<^verbatim>\<open>Math.round\<close> rounds a half towards plus infinity, as \<^const>\<open>round\<close> does
  (\<open>round x = floor (x + 1 / 2)\<close>).
\<close>

definition snapToNearest :: "props \<Rightarrow> bool \<Rightarrow> pager \<Rightarrow> outcome" where
  "snapToNearest p animated s =
     (case getMetrics p s of
        Inl e \<Rightarrow> Inl e
      | Inr (el, extent, step, raw) \<Rightarrow>
          if step = 0 then Inr s
          else (let idx = clamp (of_int (round (raw / step))) 0 (max 0 (real (pageCount p) - 1))
                in Inr (scrollTo p idx animated s)))"

text \<open>The callback that \<^verbatim>\<open>startSettleTimer\<close> hands to \<^verbatim>\<open>window.setTimeout\<close>.\<close>

definition settleCallback :: "props \<Rightarrow> pager \<Rightarrow> outcome" where
  "settleCallback p s =
     (let s1 = emitState p Settling s
      in case snapToNearest p True s1 of
           Inl e \<Rightarrow> Inl e
         | Inr s2 \<Rightarrow> Inr (emitState p Idle s2))"

section \<open>The event handlers\<close>

definition onScroll :: "props \<Rightarrow> pager \<Rightarrow> outcome" where
  "onScroll p s =
     (if orientation p \<noteq> Horizontal then Inr s
      else case emitPageScroll p s of
        Inl e \<Rightarrow> Inl e
      | Inr s1 \<Rightarrow> Inr (if \<not> draggingRef s1 then startSettleTimer p s1 else s1))"

definition onPointerDown :: "props \<Rightarrow> nat \<Rightarrow> real \<Rightarrow> pager \<Rightarrow> pager" where
  "onPointerDown p pointerId clientX s =
     (if orientation p \<noteq> Horizontal then s
      else if \<not> scrollEnabledRef s then s
      else case scrollerRef s of
        None \<Rightarrow> s
      | Some el \<Rightarrow>
          (let s1 = s\<lparr>draggingRef := True\<rparr>;
               s2 = emitState p Dragging s1;
               s3 = clearSettleTimer s2;
               s4 = s3\<lparr>restoreRef := Some (bodyUserSelect s3, cursor el)\<rparr>;
               s5 = s4\<lparr>bodyUserSelect := ''none''\<rparr>;
               el1 = el\<lparr>cursor := ''grabbing''\<rparr>;
               el2 = el1\<lparr>captured := insert pointerId (captured el1)\<rparr>
           in s5\<lparr>scrollerRef := Some el2, startRef := Some (clientX, scrollLeft el)\<rparr>))"

text \<open>
  The assignment to \<^verbatim>\<open>el.scrollLeft\<close> is stored as written; the range the browser
  would confine it to is not known to the component.
\<close>

definition onPointerMove :: "props \<Rightarrow> real \<Rightarrow> pager \<Rightarrow> outcome" where
  "onPointerMove p clientX s =
     (if orientation p \<noteq> Horizontal then Inr s
      else if \<not> draggingRef s then Inr s
      else case scrollerRef s of
        None \<Rightarrow> Inr s
      | Some el \<Rightarrow>
          (case startRef s of
             None \<Rightarrow> Inr s
           | Some (x, sl) \<Rightarrow>
               (let dx = clientX - x;
                    dir = (if layoutDirection p = Rtl then - 1 else 1);
                    s1 = s\<lparr>scrollerRef := Some (el\<lparr>scrollLeft := sl - dx * dir\<rparr>)\<rparr>
                in emitPageScroll p s1)))"

definition releaseCapture :: "nat \<Rightarrow> pager \<Rightarrow> pager" where
  "releaseCapture pointerId s =
     (case scrollerRef s of
        None \<Rightarrow> s
      | Some el \<Rightarrow>
          if pointerId \<in> captured el
          then s\<lparr>scrollerRef := Some (el\<lparr>captured := captured el - {pointerId}\<rparr>)\<rparr>
          else s)"

definition restoreVisuals :: "pager \<Rightarrow> pager" where
  "restoreVisuals s =
     (case restoreRef s of
        None \<Rightarrow> s
      | Some (userSelect, cur) \<Rightarrow>
          (case scrollerRef s of
             None \<Rightarrow> s
           | Some el \<Rightarrow>
               s\<lparr>bodyUserSelect := userSelect,
                 scrollerRef := Some (el\<lparr>cursor := cur\<rparr>),
                 restoreRef := None\<rparr>))"

definition endDrag :: "props \<Rightarrow> nat \<Rightarrow> pager \<Rightarrow> outcome" where
  "endDrag p pointerId s =
     (if orientation p \<noteq> Horizontal then Inr s
      else if \<not> draggingRef s then Inr s
      else (let s1 = releaseCapture pointerId s;
                s2 = s1\<lparr>draggingRef := False\<rparr>;
                s3 = emitState p Settling s2
            in case snapToNearest p True s3 of
                 Inl e \<Rightarrow> Inl e
               | Inr s4 \<Rightarrow>
                   (let s5 = emitState p Idle s4;
                        s6 = restoreVisuals s5
                    in Inr (s6\<lparr>startRef := None\<rparr>))))"

definition onPointerUp :: "props \<Rightarrow> nat \<Rightarrow> pager \<Rightarrow> outcome" where
  "onPointerUp p pointerId s = endDrag p pointerId s"

definition onPointerCancel :: "props \<Rightarrow> nat \<Rightarrow> pager \<Rightarrow> outcome" where
  "onPointerCancel p pointerId s = endDrag p pointerId s"

section \<open>The imperative handle and the first frame\<close>

definition setPage :: "props \<Rightarrow> real \<Rightarrow> pager \<Rightarrow> pager" where
  "setPage p index s = scrollTo p index True s"

definition setPageWithoutAnimation :: "props \<Rightarrow> real \<Rightarrow> pager \<Rightarrow> pager" where
  "setPageWithoutAnimation p index s = scrollTo p index False s"

definition setScrollEnabled :: "bool \<Rightarrow> pager \<Rightarrow> pager" where
  "setScrollEnabled enabled s = s\<lparr>scrollEnabledRef := enabled\<rparr>"

text \<open>
  The initial values of the \<^verbatim>\<open>useRef\<close> cells. The element and the style of the body are
  what the host page has at that moment.
\<close>

definition initialState :: "props \<Rightarrow> element option \<Rightarrow> string \<Rightarrow> pager" where
  "initialState p el userSelect =
     \<lparr>scrollerRef = el,
      bodyUserSelect = userSelect,
      scrollEnabledRef = scrollEnabled p,
      draggingRef = False,
      startRef = None,
      restoreRef = None,
      currentIndexRef = initialPage p,
      settleTimer = None,
      timers = [],
      nextTimerId = 1,
      now = 0,
      emitted = []\<rparr>"

section \<open>The event loop\<close>

text \<open>
  What reaches the component: a call on the imperative handle, the animation frame
  requested on mount, a scroll event (the browser has moved \<^verbatim>\<open>scrollLeft\<close> and calls
  \<^verbatim>\<open>onScroll\<close>), the four pointer events, and the passing of time, which runs the
  timeouts that have become due. An exception that leaves a handler or a timeout is
  logged and the loop goes on, as in a browser. The scroll command of \<^verbatim>\<open>scrollTo\<close> is
  only logged: the offsets the browser moves through come back as scroll events. All
  timeouts have the same delay, so the order in which they were set is the order in which
  they become due.
\<close>

datatype event =
    SetPage real
  | SetPageWithoutAnimation real
  | SetScrollEnabled bool
  | InitialFrame
  | Scroll real
  | PointerDown nat real
  | PointerMove real
  | PointerUp nat
  | PointerCancel nat
  | Elapse nat

definition uncaught :: "outcome \<Rightarrow> pager" where
  "uncaught r = (case r of Inl (e, s) \<Rightarrow> emit (Uncaught e) s | Inr s \<Rightarrow> s)"

text \<open>
  A timeout that fires runs the settle callback of the render that set it, with that
  render's page count, page margin, layout direction and observers.
\<close>

fun fireTimers :: "(nat \<times> nat \<times> props) list \<Rightarrow> pager \<Rightarrow> pager" where
  "fireTimers [] s = s"
| "fireTimers (pending # ts) s =
     fireTimers ts (uncaught (settleCallback (snd (snd pending)) s))"

definition elapse :: "nat \<Rightarrow> pager \<Rightarrow> pager" where
  "elapse d s =
     (let s1 = s\<lparr>now := now s + d\<rparr>;
          due = filter (\<lambda>pending. fst (snd pending) \<le> now s1) (timers s1);
          s2 = s1\<lparr>timers := filter (\<lambda>pending. \<not> fst (snd pending) \<le> now s1) (timers s1)\<rparr>
      in fireTimers due s2)"

fun dispatch :: "props \<Rightarrow> event \<Rightarrow> pager \<Rightarrow> outcome" where
  "dispatch p (SetPage index) s = Inr (setPage p index s)"
| "dispatch p (SetPageWithoutAnimation index) s = Inr (setPageWithoutAnimation p index s)"
| "dispatch p (SetScrollEnabled enabled) s = Inr (setScrollEnabled enabled s)"
| "dispatch p InitialFrame s = Inr (scrollTo p (initialPage p) False s)"
| "dispatch p (Scroll sl) s =
     (case scrollerRef s of
        None \<Rightarrow> Inr s
      | Some el \<Rightarrow> onScroll p (s\<lparr>scrollerRef := Some (el\<lparr>scrollLeft := sl\<rparr>)\<rparr>))"
| "dispatch p (PointerDown pointerId clientX) s = Inr (onPointerDown p pointerId clientX s)"
| "dispatch p (PointerMove clientX) s = onPointerMove p clientX s"
| "dispatch p (PointerUp pointerId) s = onPointerUp p pointerId s"
| "dispatch p (PointerCancel pointerId) s = onPointerCancel p pointerId s"
| "dispatch p (Elapse d) s = Inr (elapse d s)"

definition deliver :: "props \<Rightarrow> event \<Rightarrow> pager \<Rightarrow> pager" where
  "deliver p e s = uncaught (dispatch p e s)"

text \<open>A stretch of events handled by the closures of one render.\<close>

fun run :: "props \<Rightarrow> event list \<Rightarrow> pager \<Rightarrow> pager" where
  "run p [] s = s"
| "run p (e # es) s = run p es (deliver p e s)"

text \<open>
  The props change from one render to the next. Each event comes with the props of the
  render whose closure handles it: the latest render for a DOM event and for the
  imperative handle, the first render for the animation frame requested on mount.
\<close>

fun runRenders :: "(props \<times> event) list \<Rightarrow> pager \<Rightarrow> pager" where
  "runRenders [] s = s"
| "runRenders ((p, e) # renders) s = runRenders renders (deliver p e s)"

section \<open>Readings of the log\<close>

fun stateChanges :: "emitted_event list \<Rightarrow> scroll_state list" where
  "stateChanges [] = []"
| "stateChanges (PageScrollStateChanged st # evs) = st # stateChanges evs"
| "stateChanges (_ # evs) = stateChanges evs"

fun selections :: "emitted_event list \<Rightarrow> real list" where
  "selections [] = []"
| "selections (PageSelected i # evs) = i # selections evs"
| "selections (_ # evs) = selections evs"

fun scrollCommands :: "emitted_event list \<Rightarrow> (real \<times> bool) list" where
  "scrollCommands [] = []"
| "scrollCommands (ScrollToCmd left animated # evs) = (left, animated) # scrollCommands evs"
| "scrollCommands (_ # evs) = scrollCommands evs"

fun pageScrolls :: "emitted_event list \<Rightarrow> (int \<times> real) list" where
  "pageScrolls [] = []"
| "pageScrolls (PageScroll position offset # evs) = (position, offset) # pageScrolls evs"
| "pageScrolls (_ # evs) = pageScrolls evs"

section \<open>Notions used in the statements\<close>

text \<open>
  Everything of the state except the committed index and the log: the navigation
  operation and the observers leave it alone.
\<close>

definition frame :: "pager \<Rightarrow> pager" where
  "frame s = s\<lparr>currentIndexRef := 0, emitted := []\<rparr>"

text \<open>
  The visual state a drag touches: the text-selection style of the body, the cursor of
  the scroller, the saved pair, and whether a drag is on.
\<close>

definition visual :: "pager \<Rightarrow> string \<times> string option \<times> (string \<times> string) option \<times> bool" where
  "visual s = (bodyUserSelect s, map_option cursor (scrollerRef s), restoreRef s, draggingRef s)"

text \<open>The events that neither start nor end a drag session.\<close>

fun keepsSession :: "event \<Rightarrow> bool" where
  "keepsSession (PointerDown pointerId clientX) = False"
| "keepsSession (PointerUp pointerId) = False"
| "keepsSession (PointerCancel pointerId) = False"
| "keepsSession e = True"

text \<open>A three-page pager, one hundred pixels wide, used for the concrete instances.\<close>

definition demoProps :: props where
  "demoProps =
     \<lparr>scrollEnabled = True, layoutDirection = Ltr, initialPage = 0, orientation = Horizontal,
      pageMargin = 0, has_onPageScroll = True, has_onPageSelected = True,
      has_onPageScrollStateChanged = True, pageCount = 3\<rparr>"

definition demoElement :: element where
  "demoElement = \<lparr>clientWidth = 100, scrollLeft = 0, cursor = ''grab'', captured = {}\<rparr>"

definition demoPager :: pager where
  "demoPager = initialState demoProps (Some demoElement) ''text''"

text \<open>What \<^verbatim>\<open>emitState\<close> adds to the log, and what a snap adds to it.\<close>

definition stateEvent :: "props \<Rightarrow> scroll_state \<Rightarrow> emitted_event list" where
  "stateEvent p st = (if has_onPageScrollStateChanged p then [PageScrollStateChanged st] else [])"

definition snapEvents :: "props \<Rightarrow> element \<Rightarrow> real \<Rightarrow> bool \<Rightarrow> emitted_event list" where
  "snapEvents p el cur animated =
     (let step = clientWidth el + pageMargin p;
          idx = clamp (of_int (round (abs (scrollLeft el) / step))) 0 (max 0 (real (pageCount p) - 1));
          pos = idx * step
      in if step = 0 then []
         else ScrollToCmd (if layoutDirection p = Rtl then - pos else pos) animated #
              (if cur \<noteq> idx \<and> has_onPageSelected p then [PageSelected idx] else []))"

text \<open>The index and the signed offset a snap goes to from the offset of an element.\<close>

definition snapIndex :: "props \<Rightarrow> element \<Rightarrow> real" where
  "snapIndex p el =
     clamp (of_int (round (abs (scrollLeft el) / (clientWidth el + pageMargin p))))
       0 (max 0 (real (pageCount p) - 1))"

definition snapTarget :: "props \<Rightarrow> element \<Rightarrow> real" where
  "snapTarget p el =
     (if layoutDirection p = Rtl then - (snapIndex p el * (clientWidth el + pageMargin p))
      else snapIndex p el * (clientWidth el + pageMargin p))"

text \<open>
  Modelled from the spec: the scroll primitive of the host, which carries out the scroll
  commands (\<^verbatim>\<open>el.scrollTo\<close> is the browser's, not the component's). Sections 2 and 5 of
  the spec: the primitive executes the command, the target of the latest command
  dominates, and the component observes the resulting scroll. So when the host has
  carried out the commands issued so far, the scroll offset is the target of the last
  one and the component gets the scroll event for it. No range is imposed on the offset:
  the component does not know it.
\<close>

definition hostScrolls :: "props \<Rightarrow> pager \<Rightarrow> pager" where
  "hostScrolls p s =
     (if scrollCommands (emitted s) = [] then s
      else deliver p (Scroll (fst (last (scrollCommands (emitted s))))) s)"

text \<open>The range the committed index is meant to stay in.\<close>

definition index_inv :: "props \<Rightarrow> pager \<Rightarrow> bool" where
  "index_inv p s \<longleftrightarrow>
     0 \<le> currentIndexRef s \<and> currentIndexRef s \<le> max 0 (real (pageCount p) - 1)"

text \<open>
  Every pending timeout was set by a render with no more pages than \<open>p\<close> has.
\<close>

definition closures_within :: "props \<Rightarrow> pager \<Rightarrow> bool" where
  "closures_within p s \<longleftrightarrow>
     list_all (\<lambda>pending. pageCount (snd (snd pending)) \<le> pageCount p) (timers s)"

text \<open>
  Further concrete instances: two pages with a margin as wide as the viewport, the demo
  pager in the middle of a drag, before layout, and scrolled past its last page.
\<close>

definition demoMarginProps :: props where
  "demoMarginProps = demoProps\<lparr>pageMargin := 100, pageCount := 2\<rparr>"

definition demoDragging :: pager where
  "demoDragging = run demoProps [PointerDown 1 0, PointerMove (- 160)] demoPager"

definition demoDragged :: element where
  "demoDragged = \<lparr>clientWidth = 100, scrollLeft = 160, cursor = ''grabbing'', captured = {1}\<rparr>"

definition demoUnlaidOut :: pager where
  "demoUnlaidOut = demoPager\<lparr>scrollerRef := Some (demoElement\<lparr>clientWidth := 0\<rparr>)\<rparr>"

definition demoOverscrolled :: pager where
  "demoOverscrolled = demoPager\<lparr>scrollerRef := Some (demoElement\<lparr>scrollLeft := 350\<rparr>)\<rparr>"

text \<open>
  At most one timeout is pending, and it is the one whose id is in \<^verbatim>\<open>settleTimer\<close>.
\<close>

definition timer_inv :: "pager \<Rightarrow> bool" where
  "timer_inv s \<longleftrightarrow>
     length (timers s) \<le> 1 \<and> set (map fst (timers s)) \<subseteq> set_option (settleTimer s)"

text \<open>
  A run of passive scroll ticks, each followed by the time that passes before the next
  event.
\<close>

fun passiveTicks :: "(real \<times> nat) list \<Rightarrow> event list" where
  "passiveTicks [] = []"
| "passiveTicks ((sl, gap) # ticks) = Scroll sl # Elapse gap # passiveTicks ticks"

section \<open>Basic facts\<close>

lemma stateChanges_append: "stateChanges (xs @ ys) = stateChanges xs @ stateChanges ys"
  by (induction xs rule: stateChanges.induct) simp_all

lemma selections_append: "selections (xs @ ys) = selections xs @ selections ys"
  by (induction xs rule: selections.induct) simp_all

lemma scrollCommands_append: "scrollCommands (xs @ ys) = scrollCommands xs @ scrollCommands ys"
  by (induction xs rule: scrollCommands.induct) simp_all

lemma pageScrolls_append: "pageScrolls (xs @ ys) = pageScrolls xs @ pageScrolls ys"
  by (induction xs rule: pageScrolls.induct) simp_all

lemmas log_append = stateChanges_append selections_append scrollCommands_append pageScrolls_append

lemma clamp_idem: "a \<le> b \<Longrightarrow> clamp (clamp v a b) a b = clamp v a b"
  by (simp add: clamp_def)

lemma scrollTo_mounted:
  assumes "scrollerRef s = Some el"
  shows "scrollTo p index animated s =
     (let i = clamp index 0 (max 0 (real (pageCount p) - 1));
          pos = i * (clientWidth el + pageMargin p);
          left = (if layoutDirection p = Rtl then - pos else pos)
      in s\<lparr>currentIndexRef := i,
            emitted := emitted s @ ScrollToCmd left animated #
               (if currentIndexRef s \<noteq> i \<and> has_onPageSelected p then [PageSelected i] else [])\<rparr>)"
  using assms by (simp add: scrollTo_def Let_def emit_def onPageSelected_def)

lemma scrollTo_unmounted: "scrollerRef s = None \<Longrightarrow> scrollTo p index animated s = s"
  by (simp add: scrollTo_def)

lemma getMetrics_mounted:
  "scrollerRef s = Some el \<Longrightarrow>
   getMetrics p s = Inr (el, clientWidth el, clientWidth el + pageMargin p, abs (scrollLeft el))"
  by (simp add: getMetrics_def Let_def)

lemma snapToNearest_mounted:
  "scrollerRef s = Some el \<Longrightarrow>
   snapToNearest p animated s =
     Inr (if clientWidth el + pageMargin p = 0 then s
          else scrollTo p (clamp (of_int (round (abs (scrollLeft el) / (clientWidth el + pageMargin p))))
                             0 (max 0 (real (pageCount p) - 1))) animated s)"
  by (simp add: snapToNearest_def getMetrics_mounted)

lemma snapToNearest_unmounted:
  "scrollerRef s = None \<Longrightarrow> snapToNearest p animated s = Inl (TypeError, s)"
  by (simp add: snapToNearest_def getMetrics_def)

lemma emitPageScroll_mounted:
  "scrollerRef s = Some el \<Longrightarrow>
   emitPageScroll p s =
     Inr (if has_onPageScroll p \<and> clientWidth el + pageMargin p \<noteq> 0
          then emit (PageScroll (floor (abs (scrollLeft el) / (clientWidth el + pageMargin p)))
                 (clamp (abs (scrollLeft el) / (clientWidth el + pageMargin p)
                    - of_int (floor (abs (scrollLeft el) / (clientWidth el + pageMargin p)))) 0 1)) s
          else s)"
  by (simp add: emitPageScroll_def getMetrics_mounted Let_def)

lemma uncaught_Inr [simp]: "uncaught (Inr s) = s"
  by (simp add: uncaught_def)

lemma uncaught_Inl [simp]: "uncaught (Inl (e, s)) = emit (Uncaught e) s"
  by (simp add: uncaught_def)

lemma frame_scrollTo: "frame (scrollTo p index animated s) = frame s"
  by (cases "scrollerRef s") (simp_all add: scrollTo_mounted scrollTo_unmounted frame_def Let_def)

lemma frame_emit: "frame (emit ev s) = frame s"
  by (simp add: emit_def frame_def)

lemma frame_emitState: "frame (emitState p st s) = frame s"
  by (simp add: emitState_def frame_emit)

lemma frame_snap: "frame (uncaught (snapToNearest p animated s)) = frame s"
  by (cases "scrollerRef s")
     (simp_all add: snapToNearest_mounted snapToNearest_unmounted uncaught_def frame_emit frame_scrollTo)

lemma scrollerRef_emitState: "scrollerRef (emitState p st s) = scrollerRef s"
  by (simp add: emitState_def emit_def)

lemma settleCallback_mounted:
  "scrollerRef s = Some el \<Longrightarrow>
   settleCallback p s =
     Inr (emitState p Idle (uncaught (snapToNearest p True (emitState p Settling s))))"
  by (simp add: settleCallback_def Let_def uncaught_def
        snapToNearest_mounted [where el = el] scrollerRef_emitState)

lemma settleCallback_unmounted:
  "scrollerRef s = None \<Longrightarrow>
   settleCallback p s = Inl (TypeError, emitState p Settling s)"
  by (simp add: settleCallback_def Let_def snapToNearest_unmounted scrollerRef_emitState)

lemma frame_settleCallback: "frame (uncaught (settleCallback p s)) = frame s"
proof (cases "scrollerRef s")
  case None
  then show ?thesis
    by (simp add: settleCallback_unmounted uncaught_def frame_emit frame_emitState)
next
  case (Some el)
  then show ?thesis
    by (simp add: settleCallback_mounted frame_emitState frame_snap)
qed

lemma frame_fireTimers: "frame (fireTimers ts s) = frame s"
  by (induction ts arbitrary: s) (simp_all add: frame_settleCallback)

lemma visual_frame: "frame s' = frame s \<Longrightarrow> visual s' = visual s"
proof -
  have "visual x = visual (frame x)" for x
    by (simp add: visual_def frame_def)
  then show "frame s' = frame s \<Longrightarrow> visual s' = visual s"
    by metis
qed

lemma visual_fireTimers: "visual (fireTimers ts s) = visual s"
  by (rule visual_frame) (rule frame_fireTimers)

lemma visual_scrollTo: "visual (scrollTo p i a s) = visual s"
  by (rule visual_frame) (rule frame_scrollTo)

lemma deliver_keeps_visual:
  assumes "keepsSession e"
  shows "visual (deliver p e s) = visual s"
proof (cases e)
  case (Scroll sl)
  then show ?thesis
    by (auto simp add: deliver_def onScroll_def emitPageScroll_mounted visual_def emit_def
          startSettleTimer_def clearSettleTimer_def Let_def split: option.splits)
next
  case (PointerMove x)
  then show ?thesis
    by (auto simp add: deliver_def onPointerMove_def emitPageScroll_mounted visual_def emit_def
          Let_def split: option.splits)
next
  case (Elapse d)
  then show ?thesis
    by (simp add: deliver_def elapse_def Let_def visual_fireTimers) (simp add: visual_def)
qed (use assms in \<open>simp_all add: deliver_def setPage_def setPageWithoutAnimation_def
        setScrollEnabled_def visual_scrollTo\<close>, simp add: visual_def)

lemma run_keeps_visual:
  "list_all keepsSession es \<Longrightarrow> visual (run p es s) = visual s"
  by (induction es arbitrary: s) (simp_all add: deliver_keeps_visual)

lemma frame_fields:
  assumes "frame s' = frame s"
  shows "scrollerRef s' = scrollerRef s" and "bodyUserSelect s' = bodyUserSelect s"
    and "scrollEnabledRef s' = scrollEnabledRef s" and "draggingRef s' = draggingRef s"
    and "startRef s' = startRef s" and "restoreRef s' = restoreRef s"
    and "settleTimer s' = settleTimer s" and "timers s' = timers s"
    and "nextTimerId s' = nextTimerId s" and "now s' = now s"
proof -
  have "scrollerRef x = scrollerRef (frame x)" "bodyUserSelect x = bodyUserSelect (frame x)"
    "scrollEnabledRef x = scrollEnabledRef (frame x)" "draggingRef x = draggingRef (frame x)"
    "startRef x = startRef (frame x)" "restoreRef x = restoreRef (frame x)"
    "settleTimer x = settleTimer (frame x)" "timers x = timers (frame x)"
    "nextTimerId x = nextTimerId (frame x)" "now x = now (frame x)" for x
    by (simp_all add: frame_def)
  with assms show "scrollerRef s' = scrollerRef s" and "bodyUserSelect s' = bodyUserSelect s"
    and "scrollEnabledRef s' = scrollEnabledRef s" and "draggingRef s' = draggingRef s"
    and "startRef s' = startRef s" and "restoreRef s' = restoreRef s"
    and "settleTimer s' = settleTimer s" and "timers s' = timers s"
    and "nextTimerId s' = nextTimerId s" and "now s' = now s"
    by metis+
qed

lemmas scrollTo_fields = frame_fields [OF frame_scrollTo]
lemmas snap_fields = frame_fields [OF frame_snap]
lemmas emitState_fields = frame_fields [OF frame_emitState]
lemmas settleCallback_fields = frame_fields [OF frame_settleCallback]
lemmas fireTimers_fields = frame_fields [OF frame_fireTimers]

lemma snap_case:
  "scrollerRef s \<noteq> None \<Longrightarrow>
   (case snapToNearest p a s of Inl e \<Rightarrow> f e | Inr s' \<Rightarrow> g s') =
     g (uncaught (snapToNearest p a s))"
  by (auto simp add: snapToNearest_mounted)

lemma endDrag_mounted:
  assumes "scrollerRef s = Some el" and "orientation p = Horizontal" and "draggingRef s"
  shows "endDrag p pointerId s =
     Inr ((restoreVisuals (emitState p Idle (uncaught (snapToNearest p True
            (emitState p Settling ((releaseCapture pointerId s)\<lparr>draggingRef := False\<rparr>))))))
          \<lparr>startRef := None\<rparr>)"
proof -
  have "scrollerRef (emitState p Settling ((releaseCapture pointerId s)\<lparr>draggingRef := False\<rparr>)) \<noteq> None"
    using assms(1) by (simp add: emitState_fields releaseCapture_def)
  then show ?thesis
    using assms by (simp add: endDrag_def Let_def snap_case)
qed

lemma visual_restoreVisuals:
  "visual (restoreVisuals s) =
     (case restoreRef s of
        None \<Rightarrow> visual s
      | Some (us, cur) \<Rightarrow>
          (case scrollerRef s of
             None \<Rightarrow> visual s
           | Some el \<Rightarrow> (us, Some cur, None, draggingRef s)))"
  by (simp add: restoreVisuals_def visual_def split: option.splits)

lemma visual_endDrag:
  assumes "orientation p = Horizontal" and "visual s = (b, Some c, Some (us, cur), True)"
  shows "visual (uncaught (endDrag p pointerId s)) = (us, Some cur, None, False)"
    and "startRef (uncaught (endDrag p pointerId s)) = None"
proof -
  from assms(2) obtain el where el: "scrollerRef s = Some el"
    by (auto simp add: visual_def)
  from assms(2) have d: "draggingRef s" and r: "restoreRef s = Some (us, cur)"
    by (simp_all add: visual_def)
  let ?s3 = "uncaught (snapToNearest p True
            (emitState p Settling ((releaseCapture pointerId s)\<lparr>draggingRef := False\<rparr>)))"
  have "restoreRef ?s3 = Some (us, cur)" and "scrollerRef ?s3 \<noteq> None" and "\<not> draggingRef ?s3"
    using el r by (simp_all add: snap_fields emitState_fields releaseCapture_def)
  then have "restoreRef (emitState p Idle ?s3) = Some (us, cur)"
    and "scrollerRef (emitState p Idle ?s3) \<noteq> None" and "\<not> draggingRef (emitState p Idle ?s3)"
    by (simp_all add: emitState_fields)
  then have *: "visual (restoreVisuals (emitState p Idle ?s3)) = (us, Some cur, None, False)"
    by (auto simp add: visual_restoreVisuals)
  show "visual (uncaught (endDrag p pointerId s)) = (us, Some cur, None, False)"
    using * by (simp add: endDrag_mounted [OF el assms(1) d] visual_def)
  show "startRef (uncaught (endDrag p pointerId s)) = None"
    by (simp add: endDrag_mounted [OF el assms(1) d])
qed

lemma visual_onPointerDown:
  assumes "orientation p = Horizontal" and "scrollEnabledRef s" and "scrollerRef s = Some el"
  shows "visual (onPointerDown p pointerId clientX s) =
           (''none'', Some ''grabbing'', Some (bodyUserSelect s, cursor el), True)"
  using assms
  by (simp add: onPointerDown_def Let_def visual_def emitState_def emit_def clearSettleTimer_def
        split: option.splits)

lemma scrollEnabledRef_onPointerDown:
  "scrollEnabledRef (onPointerDown p pointerId clientX s) = scrollEnabledRef s"
  by (simp add: onPointerDown_def Let_def emitState_def emit_def clearSettleTimer_def
        split: option.splits)

lemma run_append: "run p (es @ fs) s = run p fs (run p es s)"
  by (induction es arbitrary: s) simp_all

lemma run_runRenders: "run p es s = runRenders (map (Pair p) es) s"
  by (induction es arbitrary: s) simp_all

lemma emitted_emitState: "emitted (emitState p st s) = emitted s @ stateEvent p st"
  by (simp add: emitState_def stateEvent_def emit_def)

lemma currentIndexRef_emitState: "currentIndexRef (emitState p st s) = currentIndexRef s"
  by (simp add: emitState_def emit_def)

lemma emitted_restoreVisuals: "emitted (restoreVisuals s) = emitted s"
  by (simp add: restoreVisuals_def split: option.splits)

lemma emitted_releaseCapture: "emitted (releaseCapture pointerId s) = emitted s"
  by (simp add: releaseCapture_def split: option.splits)

lemma currentIndexRef_releaseCapture:
  "currentIndexRef (releaseCapture pointerId s) = currentIndexRef s"
  by (simp add: releaseCapture_def split: option.splits)

lemma emitted_snap:
  "scrollerRef s = Some el \<Longrightarrow>
   emitted (uncaught (snapToNearest p animated s)) =
     emitted s @ snapEvents p el (currentIndexRef s) animated"
  by (simp add: snapToNearest_mounted scrollTo_mounted [where el = el] snapEvents_def Let_def
        clamp_idem)

lemma snapEvents_captured: "snapEvents p (el\<lparr>captured := c\<rparr>) cur a = snapEvents p el cur a"
  by (simp add: snapEvents_def)

lemma stateChanges_stateEvent:
  "stateChanges (stateEvent p st) = (if has_onPageScrollStateChanged p then [st] else [])"
  by (simp add: stateEvent_def)

lemma stateEvent_others:
  "selections (stateEvent p st) = []" "scrollCommands (stateEvent p st) = []"
  "pageScrolls (stateEvent p st) = []"
  by (simp_all add: stateEvent_def)

lemma snapEvents_others:
  "stateChanges (snapEvents p el cur a) = []" "pageScrolls (snapEvents p el cur a) = []"
  by (simp_all add: snapEvents_def Let_def)

lemma emitted_endDrag:
  assumes "scrollerRef s = Some el" and "orientation p = Horizontal" and "draggingRef s"
  shows "emitted (uncaught (endDrag p pointerId s)) =
     emitted s @ stateEvent p Settling @ snapEvents p el (currentIndexRef s) True
       @ stateEvent p Idle"
proof -
  let ?t = "emitState p Settling ((releaseCapture pointerId s)\<lparr>draggingRef := False\<rparr>)"
  obtain el' where t: "scrollerRef ?t = Some el'"
    and same: "snapEvents p el' (currentIndexRef s) True = snapEvents p el (currentIndexRef s) True"
    using assms(1) by (cases "pointerId \<in> captured el")
      (simp_all add: emitState_fields releaseCapture_def snapEvents_captured)
  show ?thesis
    by (simp add: endDrag_mounted [OF assms] emitted_restoreVisuals emitted_emitState
          emitted_snap [OF t] currentIndexRef_emitState currentIndexRef_releaseCapture
          emitted_releaseCapture same)
qed

lemma emitted_settleCallback:
  assumes "scrollerRef s = Some el"
  shows "emitted (uncaught (settleCallback p s)) =
     emitted s @ stateEvent p Settling @ snapEvents p el (currentIndexRef s) True
       @ stateEvent p Idle"
proof -
  have t: "scrollerRef (emitState p Settling s) = Some el"
    using assms by (simp add: scrollerRef_emitState)
  show ?thesis
    by (simp add: settleCallback_mounted [OF assms] emitted_emitState emitted_snap [OF t]
          currentIndexRef_emitState)
qed

subsection \<open>The settle timer and the state changes\<close>

lemma timer_inv_none: "timer_inv s \<Longrightarrow> settleTimer s = None \<Longrightarrow> timers s = []"
  by (simp add: timer_inv_def)

lemma timer_inv_some:
  "timer_inv s \<Longrightarrow> settleTimer s = Some t \<Longrightarrow>
   filter (\<lambda>pending. fst pending \<noteq> t) (timers s) = []"
  by (auto simp add: timer_inv_def filter_empty_conv)

lemma clearSettleTimer_inv:
  assumes "timer_inv s"
  shows "clearSettleTimer s = s\<lparr>timers := [], settleTimer := None\<rparr>"
proof (cases "settleTimer s")
  case None
  with assms have "timers s = []" by (rule timer_inv_none)
  with None show ?thesis
    by (simp add: clearSettleTimer_def)
next
  case (Some t)
  with assms show ?thesis
    by (simp add: clearSettleTimer_def timer_inv_some)
qed

lemma startSettleTimer_inv:
  assumes "timer_inv s"
  shows "startSettleTimer p s =
     s\<lparr>timers := [(nextTimerId s, now s + 120, p)], nextTimerId := nextTimerId s + 1,
       settleTimer := Some (nextTimerId s)\<rparr>"
  by (simp add: startSettleTimer_def Let_def clearSettleTimer_inv [OF assms])

lemma elapse_none:
  assumes "timers s = []"
  shows "deliver p (Elapse d) s = s\<lparr>now := now s + d\<rparr>"
  using assms by (simp add: deliver_def elapse_def Let_def)

lemma elapse_not_due:
  assumes "timers s = [(t, due, q)]" and "now s + d < due"
  shows "deliver p (Elapse d) s = s\<lparr>now := now s + d\<rparr>"
  using assms by (simp add: deliver_def elapse_def Let_def)

lemma elapse_due:
  assumes "timers s = [(t, due, q)]" and "due \<le> now s + d"
  shows "deliver p (Elapse d) s =
     uncaught (settleCallback q (s\<lparr>now := now s + d, timers := []\<rparr>))"
  using assms by (simp add: deliver_def elapse_def Let_def)

lemma scroll_passive:
  assumes "scrollerRef s = Some el" and "orientation p = Horizontal" and "\<not> draggingRef s"
    and "timer_inv s"
  shows "deliver p (Scroll sl) s =
     (uncaught (emitPageScroll p (s\<lparr>scrollerRef := Some (el\<lparr>scrollLeft := sl\<rparr>)\<rparr>)))
       \<lparr>timers := [(nextTimerId s, now s + 120, p)], nextTimerId := nextTimerId s + 1,
        settleTimer := Some (nextTimerId s)\<rparr>"
proof -
  let ?s = "s\<lparr>scrollerRef := Some (el\<lparr>scrollLeft := sl\<rparr>)\<rparr>"
  let ?u = "uncaught (emitPageScroll p ?s)"
  have m: "scrollerRef ?s = Some (el\<lparr>scrollLeft := sl\<rparr>)" by simp
  have f: "timers ?u = timers s" "settleTimer ?u = settleTimer s" "\<not> draggingRef ?u"
    "nextTimerId ?u = nextTimerId s" "now ?u = now s"
    using assms(3) by (simp_all add: emitPageScroll_mounted [OF m] emit_def)
  then have "timer_inv ?u"
    using assms(4) by (simp add: timer_inv_def)
  then have "startSettleTimer p ?u =
     ?u\<lparr>timers := [(nextTimerId s, now s + 120, p)], nextTimerId := nextTimerId s + 1,
        settleTimer := Some (nextTimerId s)\<rparr>"
    by (simp add: startSettleTimer_inv f)
  moreover have "deliver p (Scroll sl) s = startSettleTimer p ?u"
    using assms(1-3) by (simp add: deliver_def onScroll_def emitPageScroll_mounted [OF m] emit_def)
  ultimately show ?thesis by simp
qed

lemma emitPageScroll_log:
  "scrollerRef s = Some el \<Longrightarrow>
   stateChanges (emitted (uncaught (emitPageScroll p s))) = stateChanges (emitted s)
   \<and> frame (uncaught (emitPageScroll p s)) = frame s
   \<and> currentIndexRef (uncaught (emitPageScroll p s)) = currentIndexRef s"
  by (simp add: emitPageScroll_mounted emit_def log_append frame_def)

lemma scroll_passive_fields:
  assumes "scrollerRef s = Some el" and "orientation p = Horizontal" and "\<not> draggingRef s"
    and "timer_inv s"
  shows "timers (deliver p (Scroll sl) s) = [(nextTimerId s, now s + 120, p)]"
    and "settleTimer (deliver p (Scroll sl) s) = Some (nextTimerId s)"
    and "nextTimerId (deliver p (Scroll sl) s) = nextTimerId s + 1"
    and "now (deliver p (Scroll sl) s) = now s"
    and "\<not> draggingRef (deliver p (Scroll sl) s)"
    and "scrollerRef (deliver p (Scroll sl) s) = Some (el\<lparr>scrollLeft := sl\<rparr>)"
    and "stateChanges (emitted (deliver p (Scroll sl) s)) = stateChanges (emitted s)"
    and "timer_inv (deliver p (Scroll sl) s)"
proof -
  let ?s = "s\<lparr>scrollerRef := Some (el\<lparr>scrollLeft := sl\<rparr>)\<rparr>"
  have m: "scrollerRef ?s = Some (el\<lparr>scrollLeft := sl\<rparr>)" by simp
  note l = emitPageScroll_log [OF m, of p]
  note fl = frame_fields [OF l [THEN conjunct2, THEN conjunct1]]
  show "timers (deliver p (Scroll sl) s) = [(nextTimerId s, now s + 120, p)]"
    and "settleTimer (deliver p (Scroll sl) s) = Some (nextTimerId s)"
    and "nextTimerId (deliver p (Scroll sl) s) = nextTimerId s + 1"
    and "now (deliver p (Scroll sl) s) = now s"
    and "\<not> draggingRef (deliver p (Scroll sl) s)"
    and "scrollerRef (deliver p (Scroll sl) s) = Some (el\<lparr>scrollLeft := sl\<rparr>)"
    and "stateChanges (emitted (deliver p (Scroll sl) s)) = stateChanges (emitted s)"
    using assms(3) l by (simp_all add: scroll_passive [OF assms] fl)
  then show "timer_inv (deliver p (Scroll sl) s)"
    by (simp add: timer_inv_def)
qed

lemma run_two: "run p [a, b] s = deliver p b (deliver p a s)"
  by simp

lemma tick_pair:
  assumes "scrollerRef s \<noteq> None" and "orientation p = Horizontal" and "\<not> draggingRef s"
    and "timer_inv s" and "gap < 120"
  shows "scrollerRef (run p [Scroll sl, Elapse gap] s) \<noteq> None"
    and "\<not> draggingRef (run p [Scroll sl, Elapse gap] s)"
    and "timer_inv (run p [Scroll sl, Elapse gap] s)"
    and "stateChanges (emitted (run p [Scroll sl, Elapse gap] s)) = stateChanges (emitted s)"
    and "now (run p [Scroll sl, Elapse gap] s) = now s + gap"
    and "nextTimerId (run p [Scroll sl, Elapse gap] s) = nextTimerId s + 1"
proof -
  from assms(1) obtain el where el: "scrollerRef s = Some el" by auto
  note f = scroll_passive_fields [OF el assms(2-4), of sl]
  have "now (deliver p (Scroll sl) s) + gap < now s + 120"
    using assms(5) by (simp add: f)
  with f(1) have e: "run p [Scroll sl, Elapse gap] s =
      (deliver p (Scroll sl) s)\<lparr>now := now (deliver p (Scroll sl) s) + gap\<rparr>"
    unfolding run_two by (rule elapse_not_due)
  show "scrollerRef (run p [Scroll sl, Elapse gap] s) \<noteq> None"
    and "\<not> draggingRef (run p [Scroll sl, Elapse gap] s)"
    and "stateChanges (emitted (run p [Scroll sl, Elapse gap] s)) = stateChanges (emitted s)"
    and "now (run p [Scroll sl, Elapse gap] s) = now s + gap"
    and "nextTimerId (run p [Scroll sl, Elapse gap] s) = nextTimerId s + 1"
    unfolding e by (simp_all add: f)
  show "timer_inv (run p [Scroll sl, Elapse gap] s)"
    unfolding e using f(8) by (simp add: timer_inv_def)
qed

lemma passiveTicks_quiet:
  assumes "orientation p = Horizontal" and "list_all (\<lambda>tick. snd tick < 120) ticks"
  shows "scrollerRef s \<noteq> None \<Longrightarrow> \<not> draggingRef s \<Longrightarrow> timer_inv s \<Longrightarrow>
     scrollerRef (run p (passiveTicks ticks) s) \<noteq> None
     \<and> \<not> draggingRef (run p (passiveTicks ticks) s)
     \<and> timer_inv (run p (passiveTicks ticks) s)
     \<and> stateChanges (emitted (run p (passiveTicks ticks) s)) = stateChanges (emitted s)
     \<and> now (run p (passiveTicks ticks) s) = now s + sum_list (map snd ticks)"
  using assms(2)
proof (induction ticks arbitrary: s)
  case Nil
  then show ?case by simp
next
  case (Cons tick ticks)
  obtain sl gap where tick: "tick = (sl, gap)" by (cases tick)
  with Cons.prems have gap: "gap < 120" and rest: "list_all (\<lambda>tick. snd tick < 120) ticks"
    by simp_all
  let ?s = "run p [Scroll sl, Elapse gap] s"
  note t = tick_pair [OF Cons.prems(1) assms(1) Cons.prems(2,3) gap, of sl]
  have "run p (passiveTicks (tick # ticks)) s = run p (passiveTicks ticks) ?s"
    by (simp add: tick)
  moreover have "sum_list (map snd (tick # ticks)) = gap + sum_list (map snd ticks)"
    by (simp add: tick)
  ultimately show ?case
    using Cons.IH [OF t(1,2,3) rest] t(4,5) by (simp add: add.assoc)
qed

lemma quiesce:
  assumes "scrollerRef s \<noteq> None" and "orientation p = Horizontal" and "\<not> draggingRef s"
    and "timer_inv s"
  shows "timers (deliver p (Scroll sl) s) = [(nextTimerId s, now s + 120, p)]"
    and "d < 120 \<Longrightarrow> emitted (run p [Scroll sl, Elapse d] s) = emitted (deliver p (Scroll sl) s)"
    and "120 \<le> d \<Longrightarrow> \<exists>snap. emitted (run p [Scroll sl, Elapse d] s) =
           emitted (deliver p (Scroll sl) s) @ stateEvent p Settling @ snap @ stateEvent p Idle
           \<and> stateChanges snap = []"
    and "120 \<le> d \<Longrightarrow> timers (run p [Scroll sl, Elapse d] s) = []"
proof -
  from assms(1) obtain el where el: "scrollerRef s = Some el" by auto
  note f = scroll_passive_fields [OF el assms(2-4), of sl]
  let ?s = "deliver p (Scroll sl) s"
  show "timers ?s = [(nextTimerId s, now s + 120, p)]" by (rule f(1))
  show "emitted (run p [Scroll sl, Elapse d] s) = emitted ?s" if "d < 120"
  proof -
    from that have "now ?s + d < now s + 120" by (simp add: f)
    with f(1) have "deliver p (Elapse d) ?s = ?s\<lparr>now := now ?s + d\<rparr>"
      by (rule elapse_not_due)
    then show ?thesis unfolding run_two by simp
  qed
  have due: "run p [Scroll sl, Elapse d] s =
      uncaught (settleCallback p (?s\<lparr>now := now ?s + d, timers := []\<rparr>))" if "120 \<le> d"
  proof -
    from that have "now s + 120 \<le> now ?s + d" by (simp add: f)
    with f(1) show ?thesis unfolding run_two by (rule elapse_due)
  qed
  have m: "scrollerRef (?s\<lparr>now := now ?s + d, timers := []\<rparr>) = Some (el\<lparr>scrollLeft := sl\<rparr>)"
    by (simp add: f)
  show "\<exists>snap. emitted (run p [Scroll sl, Elapse d] s) =
           emitted ?s @ stateEvent p Settling @ snap @ stateEvent p Idle
           \<and> stateChanges snap = []" if "120 \<le> d"
  proof -
    have a: "emitted (run p [Scroll sl, Elapse d] s) =
        emitted ?s @ stateEvent p Settling
          @ snapEvents p (el\<lparr>scrollLeft := sl\<rparr>) (currentIndexRef ?s) True @ stateEvent p Idle"
      unfolding due [OF that] emitted_settleCallback [OF m] by simp
    have b: "stateChanges (snapEvents p (el\<lparr>scrollLeft := sl\<rparr>) (currentIndexRef ?s) True) = []"
      by (rule snapEvents_others)
    from a b show ?thesis
      by (intro exI [where x = "snapEvents p (el\<lparr>scrollLeft := sl\<rparr>) (currentIndexRef ?s) True"] conjI)
  qed
  show "timers (run p [Scroll sl, Elapse d] s) = []" if "120 \<le> d"
  proof -
    have "timers (run p [Scroll sl, Elapse d] s) =
        timers (?s\<lparr>now := now ?s + d, timers := []\<rparr>)"
      unfolding due [OF that] by (rule settleCallback_fields)
    then show ?thesis by simp
  qed
qed

lemma timers_releaseCapture:
  "timers (releaseCapture pointerId s) = timers s"
  "settleTimer (releaseCapture pointerId s) = settleTimer s"
  by (simp_all add: releaseCapture_def split: option.splits)

lemma timers_restoreVisuals:
  "timers (restoreVisuals s) = timers s" "settleTimer (restoreVisuals s) = settleTimer s"
  by (simp_all add: restoreVisuals_def split: option.splits)

lemma timers_endDrag:
  "timers (uncaught (endDrag p pointerId s)) = timers s
   \<and> settleTimer (uncaught (endDrag p pointerId s)) = settleTimer s"
proof (cases "orientation p = Horizontal \<and> draggingRef s")
  case False
  then show ?thesis
    by (auto simp add: endDrag_def)
next
  case True
  let ?t = "emitState p Settling ((releaseCapture pointerId s)\<lparr>draggingRef := False\<rparr>)"
  have t: "timers ?t = timers s" "settleTimer ?t = settleTimer s"
    by (simp_all add: emitState_fields timers_releaseCapture)
  show ?thesis
  proof (cases "scrollerRef ?t")
    case None
    then show ?thesis
      using True t by (simp add: endDrag_def Let_def snapToNearest_unmounted emit_def)
  next
    case (Some el')
    then have "scrollerRef ?t \<noteq> None" by simp
    then have "uncaught (endDrag p pointerId s) =
        (restoreVisuals (emitState p Idle (uncaught (snapToNearest p True ?t))))\<lparr>startRef := None\<rparr>"
      using True by (simp add: endDrag_def Let_def snap_case)
    then show ?thesis
      by (simp add: timers_restoreVisuals emitState_fields snap_fields timers_releaseCapture)
  qed
qed

lemma timers_emitPageScroll:
  "timers (uncaught (emitPageScroll p s)) = timers s
   \<and> settleTimer (uncaught (emitPageScroll p s)) = settleTimer s
   \<and> draggingRef (uncaught (emitPageScroll p s)) = draggingRef s"
proof (cases "scrollerRef s")
  case None
  then show ?thesis
    by (simp add: emitPageScroll_def getMetrics_def emit_def)
next
  case (Some el)
  then show ?thesis
    by (simp add: emitPageScroll_mounted emit_def)
qed

lemma timer_inv_deliver:
  assumes "timer_inv s"
  shows "timer_inv (deliver p e s)"
proof (cases e)
  case (Scroll sl)
  show ?thesis
  proof (cases "scrollerRef s")
    case None
    then show ?thesis using assms Scroll by (simp add: deliver_def)
  next
    case (Some el)
    let ?s = "s\<lparr>scrollerRef := Some (el\<lparr>scrollLeft := sl\<rparr>)\<rparr>"
    show ?thesis
    proof (cases "orientation p = Horizontal \<and> \<not> draggingRef s")
      case True
      then show ?thesis
        using scroll_passive_fields(8) [OF Some _ _ assms] Scroll by simp
    next
      case False
      have "timer_inv ?s" using assms by (simp add: timer_inv_def)
      then have "timer_inv (uncaught (emitPageScroll p ?s))"
        by (simp add: timer_inv_def timers_emitPageScroll)
      moreover have "deliver p e s = ?s \<or> deliver p e s = uncaught (emitPageScroll p ?s)"
      proof (cases "orientation p = Horizontal")
        case h: True
        with False have d: "draggingRef (uncaught (emitPageScroll p ?s))"
          by (simp add: timers_emitPageScroll)
        have "emitPageScroll p ?s = Inr (uncaught (emitPageScroll p ?s))"
          by (simp add: emitPageScroll_mounted [where el = "el\<lparr>scrollLeft := sl\<rparr>"])
        then obtain u where u: "emitPageScroll p ?s = Inr u" ..
        with d have "draggingRef u" by simp
        with u h show ?thesis
          using Some Scroll by (simp add: deliver_def onScroll_def)
      next
        case nh: False
        then show ?thesis using Some Scroll by (simp add: deliver_def onScroll_def)
      qed
      ultimately show ?thesis
        using \<open>timer_inv ?s\<close> by auto
    qed
  qed
next
  case (PointerDown pointerId clientX)
  show ?thesis
  proof (cases "orientation p = Horizontal \<and> scrollEnabledRef s \<and> scrollerRef s \<noteq> None")
    case False
    then show ?thesis
      using assms PointerDown by (auto simp add: deliver_def onPointerDown_def)
  next
    case True
    have "timer_inv (emitState p Dragging (s\<lparr>draggingRef := True\<rparr>))"
      using assms by (simp add: timer_inv_def emitState_fields)
    note clearSettleTimer_inv [OF this]
    then show ?thesis
      using True PointerDown
      by (auto simp add: deliver_def onPointerDown_def Let_def timer_inv_def)
  qed
next
  case (PointerMove clientX)
  have "timer_inv (uncaught (emitPageScroll p t))" if "timers t = timers s"
    and "settleTimer t = settleTimer s" for t
    using assms that by (simp add: timer_inv_def timers_emitPageScroll)
  then show ?thesis
    using assms PointerMove
    by (auto simp add: deliver_def onPointerMove_def Let_def split: option.splits)
next
  case (PointerUp pointerId)
  then show ?thesis
    using assms by (simp add: deliver_def onPointerUp_def timer_inv_def timers_endDrag)
next
  case (PointerCancel pointerId)
  then show ?thesis
    using assms by (simp add: deliver_def onPointerCancel_def timer_inv_def timers_endDrag)
next
  case (Elapse d)
  have "length (filter P (timers s)) \<le> 1" for P
  proof -
    have "length (filter P (timers s)) \<le> length (timers s)"
      by (rule length_filter_le)
    also have "\<dots> \<le> 1"
      using assms by (simp add: timer_inv_def)
    finally show ?thesis .
  qed
  moreover have "set (map fst (filter P (timers s))) \<subseteq> set_option (settleTimer s)" for P
    using assms by (auto simp add: timer_inv_def)
  ultimately show ?thesis
    using Elapse by (simp add: deliver_def elapse_def Let_def timer_inv_def fireTimers_fields)
qed (use assms in \<open>simp_all add: deliver_def setPage_def setPageWithoutAnimation_def
       setScrollEnabled_def timer_inv_def scrollTo_fields\<close>)

lemma timer_inv_run: "timer_inv s \<Longrightarrow> timer_inv (run p es s)"
  by (induction es arbitrary: s) (simp_all add: timer_inv_deliver)

lemma timer_inv_initialState: "timer_inv (initialState p mounted userSelect)"
  by (simp add: timer_inv_def initialState_def)

lemma pointerDown_starts:
  assumes "scrollerRef s = Some el" and "orientation p = Horizontal" and "scrollEnabledRef s"
    and "timer_inv s"
  shows "emitted (deliver p (PointerDown pointerId clientX) s) = emitted s @ stateEvent p Dragging"
    and "timers (deliver p (PointerDown pointerId clientX) s) = []"
    and "draggingRef (deliver p (PointerDown pointerId clientX) s)"
    and "scrollerRef (deliver p (PointerDown pointerId clientX) s) \<noteq> None"
proof -
  have "timer_inv (emitState p Dragging (s\<lparr>draggingRef := True\<rparr>))"
    using assms(4) by (simp add: timer_inv_def emitState_fields)
  note c = clearSettleTimer_inv [OF this]
  show "emitted (deliver p (PointerDown pointerId clientX) s) = emitted s @ stateEvent p Dragging"
    and "timers (deliver p (PointerDown pointerId clientX) s) = []"
    and "draggingRef (deliver p (PointerDown pointerId clientX) s)"
    and "scrollerRef (deliver p (PointerDown pointerId clientX) s) \<noteq> None"
    using assms(1-3)
    by (simp_all add: deliver_def onPointerDown_def Let_def c emitted_emitState emitState_fields)
qed

lemma stateChanges_scrollTo:
  "stateChanges (emitted (scrollTo p i a s)) = stateChanges (emitted s)"
  by (cases "scrollerRef s") (simp_all add: scrollTo_unmounted scrollTo_mounted Let_def log_append)

lemma stateChanges_emitPageScroll:
  "stateChanges (emitted (uncaught (emitPageScroll p s))) = stateChanges (emitted s)"
proof (cases "scrollerRef s")
  case None
  then show ?thesis
    by (simp add: emitPageScroll_def getMetrics_def emit_def log_append)
next
  case (Some el)
  then show ?thesis
    by (simp add: emitPageScroll_mounted emit_def log_append)
qed

lemma deliver_keeps_quiet:
  assumes "keepsSession e" and "draggingRef s" and "timers s = []"
  shows "stateChanges (emitted (deliver p e s)) = stateChanges (emitted s)
       \<and> timers (deliver p e s) = []"
proof (cases e)
  case (Scroll sl)
  show ?thesis
  proof (cases "scrollerRef s")
    case None
    then show ?thesis using assms Scroll by (simp add: deliver_def)
  next
    case (Some el)
    let ?s = "s\<lparr>scrollerRef := Some (el\<lparr>scrollLeft := sl\<rparr>)\<rparr>"
    have "deliver p e s = ?s \<or> deliver p e s = uncaught (emitPageScroll p ?s)"
      using Some Scroll assms(2)
      by (simp add: deliver_def onScroll_def
            emitPageScroll_mounted [where el = "el\<lparr>scrollLeft := sl\<rparr>"] emit_def)
    moreover have "stateChanges (emitted (uncaught (emitPageScroll p ?s))) = stateChanges (emitted s)"
      by (simp add: stateChanges_emitPageScroll)
    moreover have "timers (uncaught (emitPageScroll p ?s)) = []"
      using assms(3) by (simp add: timers_emitPageScroll)
    ultimately show ?thesis
      using assms(3) by auto
  qed
next
  case (PointerMove clientX)
  have "stateChanges (emitted (uncaught (emitPageScroll p t))) = stateChanges (emitted s)
      \<and> timers (uncaught (emitPageScroll p t)) = []"
    if "emitted t = emitted s" and "timers t = timers s" for t
    using that assms(3) by (simp add: stateChanges_emitPageScroll timers_emitPageScroll)
  then show ?thesis
    using assms PointerMove
    by (auto simp add: deliver_def onPointerMove_def Let_def split: option.splits)
next
  case (Elapse d)
  then show ?thesis
    using assms(3) by (simp add: elapse_none)
qed (use assms in \<open>simp_all add: deliver_def setPage_def setPageWithoutAnimation_def
       setScrollEnabled_def stateChanges_scrollTo scrollTo_fields\<close>)

lemma run_keeps_quiet:
  assumes "list_all keepsSession es"
  shows "draggingRef s \<Longrightarrow> timers s = [] \<Longrightarrow>
     stateChanges (emitted (run p es s)) = stateChanges (emitted s) \<and> timers (run p es s) = []"
  using assms
proof (induction es arbitrary: s)
  case Nil
  then show ?case by simp
next
  case (Cons e es)
  then have k: "keepsSession e" and ks: "list_all keepsSession es"
    by simp_all
  note q = deliver_keeps_quiet [OF k Cons.prems(1,2), of p]
  have "visual (deliver p e s) = visual s"
    using k by (rule deliver_keeps_visual)
  then have "draggingRef (deliver p e s)"
    using Cons.prems(1) by (simp add: visual_def)
  from Cons.IH [OF this _ ks] q show ?case
    by simp
qed

lemma stateEvent_registered:
  "has_onPageScrollStateChanged p \<Longrightarrow> stateEvent p st = [PageScrollStateChanged st]"
  by (simp add: stateEvent_def)

lemma drag_session_log:
  assumes "scrollerRef s = Some el" and "orientation p = Horizontal"
    and "has_onPageScrollStateChanged p" and "timer_inv s"
    and "scrollEnabledRef s" and "list_all keepsSession moves"
    and "release = PointerUp upId \<or> release = PointerCancel upId"
  shows "stateChanges (emitted (run p (PointerDown downId clientX # moves) s)) =
           stateChanges (emitted s) @ [Dragging]"
    and "\<exists>snap. emitted (run p (PointerDown downId clientX # moves @ [release]) s) =
           emitted (run p (PointerDown downId clientX # moves) s)
             @ [PageScrollStateChanged Settling] @ snap @ [PageScrollStateChanged Idle]
           \<and> stateChanges snap = []"
proof -
  let ?s1 = "deliver p (PointerDown downId clientX) s"
  let ?s2 = "run p moves ?s1"
  note d = pointerDown_starts [OF assms(1,2,5,4), of downId clientX]
  note q = run_keeps_quiet [OF assms(6) d(3,2), of p]
  have "visual ?s2 = visual ?s1"
    using assms(6) by (rule run_keeps_visual)
  with d(3,4) obtain el2 where el2: "scrollerRef ?s2 = Some el2" and d2: "draggingRef ?s2"
    by (auto simp add: visual_def)
  show "stateChanges (emitted (run p (PointerDown downId clientX # moves) s)) =
           stateChanges (emitted s) @ [Dragging]"
    using q d(1) assms(3) by (simp add: log_append stateChanges_stateEvent)
  have "deliver p release ?s2 = uncaught (endDrag p upId ?s2)"
    using assms(7) by (auto simp add: deliver_def onPointerUp_def onPointerCancel_def)
  then have e: "emitted (run p (PointerDown downId clientX # moves @ [release]) s) =
      emitted ?s2 @ [PageScrollStateChanged Settling]
        @ snapEvents p el2 (currentIndexRef ?s2) True @ [PageScrollStateChanged Idle]"
    by (simp add: run_append emitted_endDrag [OF el2 assms(2) d2] stateEvent_registered [OF assms(3)])
  have "stateChanges (snapEvents p el2 (currentIndexRef ?s2) True) = []"
    by (rule snapEvents_others)
  with e show "\<exists>snap. emitted (run p (PointerDown downId clientX # moves @ [release]) s) =
           emitted (run p (PointerDown downId clientX # moves) s)
             @ [PageScrollStateChanged Settling] @ snap @ [PageScrollStateChanged Idle]
           \<and> stateChanges snap = []"
    by (intro exI [where x = "snapEvents p el2 (currentIndexRef ?s2) True"] conjI) simp_all
qed

lemma passive_session_log:
  assumes "scrollerRef s = Some el" and "orientation p = Horizontal"
    and "has_onPageScrollStateChanged p" and "timer_inv s"
    and "\<not> draggingRef s" and "list_all (\<lambda>tick. snd tick < 120) ticks" and "120 \<le> d"
  shows "stateChanges (emitted (run p (passiveTicks ticks @ [Scroll sl]) s)) =
           stateChanges (emitted s)"
    and "\<exists>snap. emitted (run p (passiveTicks ticks @ [Scroll sl, Elapse d]) s) =
           emitted (run p (passiveTicks ticks @ [Scroll sl]) s)
             @ [PageScrollStateChanged Settling] @ snap @ [PageScrollStateChanged Idle]
           \<and> stateChanges snap = []"
proof -
  let ?s1 = "run p (passiveTicks ticks) s"
  have m: "scrollerRef s \<noteq> None" using assms(1) by simp
  note t = passiveTicks_quiet [OF assms(2,6) m assms(5,4)]
  from t obtain el1 where el1: "scrollerRef ?s1 = Some el1" by auto
  from t have m1: "scrollerRef ?s1 \<noteq> None" and d1: "\<not> draggingRef ?s1" and i1: "timer_inv ?s1"
    and c1: "stateChanges (emitted ?s1) = stateChanges (emitted s)"
    by simp_all
  show "stateChanges (emitted (run p (passiveTicks ticks @ [Scroll sl]) s)) =
           stateChanges (emitted s)"
    using scroll_passive_fields(7) [OF el1 assms(2) d1 i1, of sl] c1
    by (simp add: run_append)
  from quiesce(3) [OF m1 assms(2) d1 i1 assms(7), of sl]
  show "\<exists>snap. emitted (run p (passiveTicks ticks @ [Scroll sl, Elapse d]) s) =
           emitted (run p (passiveTicks ticks @ [Scroll sl]) s)
             @ [PageScrollStateChanged Settling] @ snap @ [PageScrollStateChanged Idle]
           \<and> stateChanges snap = []"
    by (simp only: run_append run_two stateEvent_registered [OF assms(3)] run.simps)
qed

lemma settled_changes:
  assumes "emitted t = emitted u @ [PageScrollStateChanged Settling] @ snap @ [PageScrollStateChanged Idle]
      \<and> stateChanges snap = []"
  shows "stateChanges (emitted t) = stateChanges (emitted u) @ [Settling, Idle]"
  using assms by (simp add: log_append)

subsection \<open>Where a release comes to rest\<close>

lemma snapEvents_commands:
  "clientWidth el + pageMargin p \<noteq> 0 \<Longrightarrow>
   scrollCommands (snapEvents p el cur a) = [(snapTarget p el, a)]"
  by (simp add: snapEvents_def snapTarget_def snapIndex_def Let_def)

lemma snapIndex_int: "\<exists>k. snapIndex p el = of_int k \<and> 0 \<le> k"
proof -
  let ?j = "round (abs (scrollLeft el) / (clientWidth el + pageMargin p))"
  have m: "max 0 (real (pageCount p) - 1) = of_int (max 0 (int (pageCount p) - 1))"
    by (simp add: of_int_max)
  have "snapIndex p el = of_int (max 0 (min (max 0 (int (pageCount p) - 1)) ?j))"
    unfolding snapIndex_def clamp_def m by (simp only: of_int_max of_int_min of_int_0)
  then show ?thesis
    by (intro exI [where x = "max 0 (min (max 0 (int (pageCount p) - 1)) ?j)"]) simp
qed

lemma snapIndex_fixed:
  assumes "0 < clientWidth el + pageMargin p" and "clientWidth el' = clientWidth el"
    and "scrollLeft el' = snapTarget p el"
  shows "snapIndex p el' = snapIndex p el" and "snapTarget p el' = snapTarget p el"
    and "abs (snapTarget p el) = snapIndex p el * (clientWidth el + pageMargin p)"
proof -
  let ?step = "clientWidth el + pageMargin p"
  obtain k where k: "snapIndex p el = of_int k" "0 \<le> k"
    using snapIndex_int by blast
  then have nn: "0 \<le> snapIndex p el * ?step"
    using assms(1) by simp
  then show a: "abs (snapTarget p el) = snapIndex p el * ?step"
    by (simp add: snapTarget_def)
  have "abs (scrollLeft el') / (clientWidth el' + pageMargin p) = of_int k"
    using assms a k by simp
  then have "snapIndex p el' = clamp (of_int k) 0 (max 0 (real (pageCount p) - 1))"
    by (simp add: snapIndex_def)
  also have "\<dots> = clamp (snapIndex p el) 0 (max 0 (real (pageCount p) - 1))"
    by (simp add: k)
  also have "\<dots> = snapIndex p el"
    unfolding snapIndex_def by (simp add: clamp_idem)
  finally show i: "snapIndex p el' = snapIndex p el" .
  show "snapTarget p el' = snapTarget p el"
    by (simp add: snapTarget_def i assms(2))
qed

lemma scrollCommands_emitPageScroll:
  "scrollCommands (emitted (uncaught (emitPageScroll p s))) = scrollCommands (emitted s)"
proof (cases "scrollerRef s")
  case None
  then show ?thesis
    by (simp add: emitPageScroll_def getMetrics_def emit_def log_append)
next
  case (Some el)
  then show ?thesis
    by (simp add: emitPageScroll_mounted emit_def log_append)
qed

lemma currentIndexRef_emitPageScroll:
  "currentIndexRef (uncaught (emitPageScroll p s)) = currentIndexRef s"
proof (cases "scrollerRef s")
  case None
  then show ?thesis
    by (simp add: emitPageScroll_def getMetrics_def emit_def)
next
  case (Some el)
  then show ?thesis
    by (simp add: emitPageScroll_mounted emit_def)
qed

lemma currentIndexRef_snap:
  "scrollerRef s = Some el \<Longrightarrow> clientWidth el + pageMargin p \<noteq> 0 \<Longrightarrow>
   currentIndexRef (uncaught (snapToNearest p a s)) = snapIndex p el"
  by (simp add: snapToNearest_mounted scrollTo_mounted [where el = el] Let_def snapIndex_def
        clamp_idem)

lemma release_facts:
  assumes "scrollerRef s = Some el" and "orientation p = Horizontal" and "draggingRef s"
    and "clientWidth el + pageMargin p \<noteq> 0"
  shows "scrollCommands (emitted (uncaught (endDrag p pointerId s))) =
           scrollCommands (emitted s) @ [(snapTarget p el, True)]"
    and "currentIndexRef (uncaught (endDrag p pointerId s)) = snapIndex p el"
    and "map_option clientWidth (scrollerRef (uncaught (endDrag p pointerId s))) = Some (clientWidth el)"
    and "\<not> draggingRef (uncaught (endDrag p pointerId s))"
proof -
  let ?t = "emitState p Settling ((releaseCapture pointerId s)\<lparr>draggingRef := False\<rparr>)"
  let ?u = "emitState p Idle (uncaught (snapToNearest p True ?t))"
  obtain el' where t: "scrollerRef ?t = Some el'" and w: "clientWidth el' = clientWidth el"
    and sl: "scrollLeft el' = scrollLeft el"
    using assms(1) by (cases "pointerId \<in> captured el")
      (simp_all add: emitState_fields releaseCapture_def)
  have step: "clientWidth el' + pageMargin p \<noteq> 0"
    using assms(4) w by simp
  have idx: "snapIndex p el' = snapIndex p el"
    by (simp add: snapIndex_def w sl)
  have e: "uncaught (endDrag p pointerId s) = (restoreVisuals ?u)\<lparr>startRef := None\<rparr>"
    by (simp add: endDrag_mounted [OF assms(1-3)])
  show "scrollCommands (emitted (uncaught (endDrag p pointerId s))) =
           scrollCommands (emitted s) @ [(snapTarget p el, True)]"
    using assms(4)
    by (simp add: emitted_endDrag [OF assms(1-3)] log_append stateEvent_others snapEvents_commands)
  have "currentIndexRef ?u = snapIndex p el"
    by (simp add: currentIndexRef_emitState currentIndexRef_snap [OF t step] idx)
  then show "currentIndexRef (uncaught (endDrag p pointerId s)) = snapIndex p el"
    by (simp add: e restoreVisuals_def split: option.splits)
  have "scrollerRef ?u = Some el'" and "\<not> draggingRef ?u"
    using t by (simp_all add: emitState_fields snap_fields)
  then show "map_option clientWidth (scrollerRef (uncaught (endDrag p pointerId s))) = Some (clientWidth el)"
    and "\<not> draggingRef (uncaught (endDrag p pointerId s))"
    using w by (simp_all add: e restoreVisuals_def split: option.splits)
qed

lemma tick_pair_keeps:
  assumes "scrollerRef s \<noteq> None" and "orientation p = Horizontal" and "\<not> draggingRef s"
    and "timer_inv s" and "gap < 120"
  shows "map_option clientWidth (scrollerRef (run p [Scroll sl, Elapse gap] s)) =
           map_option clientWidth (scrollerRef s)"
    and "currentIndexRef (run p [Scroll sl, Elapse gap] s) = currentIndexRef s"
    and "scrollCommands (emitted (run p [Scroll sl, Elapse gap] s)) = scrollCommands (emitted s)"
proof -
  from assms(1) obtain el where el: "scrollerRef s = Some el" by auto
  note f = scroll_passive_fields [OF el assms(2-4), of sl]
  note g = scroll_passive [OF el assms(2-4), of sl]
  have "now (deliver p (Scroll sl) s) + gap < now s + 120"
    using assms(5) by (simp add: f)
  with f(1) have e: "run p [Scroll sl, Elapse gap] s =
      (deliver p (Scroll sl) s)\<lparr>now := now (deliver p (Scroll sl) s) + gap\<rparr>"
    unfolding run_two by (rule elapse_not_due)
  show "map_option clientWidth (scrollerRef (run p [Scroll sl, Elapse gap] s)) =
           map_option clientWidth (scrollerRef s)"
    unfolding e by (simp add: f el)
  show "currentIndexRef (run p [Scroll sl, Elapse gap] s) = currentIndexRef s"
    unfolding e by (simp add: g currentIndexRef_emitPageScroll)
  show "scrollCommands (emitted (run p [Scroll sl, Elapse gap] s)) = scrollCommands (emitted s)"
    unfolding e by (simp add: g scrollCommands_emitPageScroll)
qed

lemma passiveTicks_keeps:
  assumes "orientation p = Horizontal" and "list_all (\<lambda>tick. snd tick < 120) ticks"
  shows "scrollerRef s \<noteq> None \<Longrightarrow> \<not> draggingRef s \<Longrightarrow> timer_inv s \<Longrightarrow>
     map_option clientWidth (scrollerRef (run p (passiveTicks ticks) s)) =
       map_option clientWidth (scrollerRef s)
     \<and> currentIndexRef (run p (passiveTicks ticks) s) = currentIndexRef s
     \<and> scrollCommands (emitted (run p (passiveTicks ticks) s)) = scrollCommands (emitted s)"
  using assms(2)
proof (induction ticks arbitrary: s)
  case Nil
  then show ?case by simp
next
  case (Cons tick ticks)
  obtain sl gap where tick: "tick = (sl, gap)" by (cases tick)
  with Cons.prems have gap: "gap < 120" and rest: "list_all (\<lambda>tick. snd tick < 120) ticks"
    by simp_all
  let ?s = "run p [Scroll sl, Elapse gap] s"
  note t = tick_pair [OF Cons.prems(1) assms(1) Cons.prems(2,3) gap, of sl]
  note k = tick_pair_keeps [OF Cons.prems(1) assms(1) Cons.prems(2,3) gap, of sl]
  have "run p (passiveTicks (tick # ticks)) s = run p (passiveTicks ticks) ?s"
    by (simp add: tick)
  then show ?case
    using Cons.IH [OF t(1,2,3) rest] k by simp
qed

lemma settle_at_target:
  assumes "scrollerRef s = Some el2" and "orientation p = Horizontal" and "\<not> draggingRef s"
    and "timer_inv s" and "120 \<le> d"
    and "0 < clientWidth el + pageMargin p" and "clientWidth el2 = clientWidth el"
  shows "map_option scrollLeft (scrollerRef (run p [Scroll (snapTarget p el), Elapse d] s)) =
           Some (snapTarget p el)"
    and "scrollCommands (emitted (run p [Scroll (snapTarget p el), Elapse d] s)) =
           scrollCommands (emitted s) @ [(snapTarget p el, True)]"
    and "timers (run p [Scroll (snapTarget p el), Elapse d] s) = []"
    and "\<not> draggingRef (run p [Scroll (snapTarget p el), Elapse d] s)"
proof -
  let ?el3 = "el2\<lparr>scrollLeft := snapTarget p el\<rparr>"
  let ?s3 = "deliver p (Scroll (snapTarget p el)) s"
  let ?s3' = "?s3\<lparr>now := now ?s3 + d, timers := []\<rparr>"
  note f = scroll_passive_fields [OF assms(1-4), of "snapTarget p el"]
  note g = scroll_passive [OF assms(1-4), of "snapTarget p el"]
  have "now s + 120 \<le> now ?s3 + d"
    using assms(5) by (simp add: f)
  with f(1) have due: "run p [Scroll (snapTarget p el), Elapse d] s = uncaught (settleCallback p ?s3')"
    unfolding run_two by (rule elapse_due)
  have m: "scrollerRef ?s3' = Some ?el3"
    by (simp add: f)
  have fx: "snapTarget p ?el3 = snapTarget p el" and step: "clientWidth ?el3 + pageMargin p \<noteq> 0"
    using snapIndex_fixed(2) [OF assms(6), of ?el3] assms(6,7) by simp_all
  have c3: "scrollCommands (emitted ?s3) = scrollCommands (emitted s)"
    by (simp add: g scrollCommands_emitPageScroll)
  show "map_option scrollLeft (scrollerRef (run p [Scroll (snapTarget p el), Elapse d] s)) =
           Some (snapTarget p el)"
    unfolding due settleCallback_fields m by simp
  show "scrollCommands (emitted (run p [Scroll (snapTarget p el), Elapse d] s)) =
           scrollCommands (emitted s) @ [(snapTarget p el, True)]"
    unfolding due emitted_settleCallback [OF m]
    by (simp add: log_append stateEvent_others snapEvents_commands [OF step] fx c3)
  show "timers (run p [Scroll (snapTarget p el), Elapse d] s) = []"
    unfolding due settleCallback_fields by simp
  show "\<not> draggingRef (run p [Scroll (snapTarget p el), Elapse d] s)"
    unfolding due settleCallback_fields by (simp add: f)
qed

lemma clamp_no_pages: "clamp v 0 (max 0 (real n - 1)) = clamp v 0 (real n - 1)"
  by (cases n) (simp_all add: clamp_def)

subsection \<open>The committed index\<close>

lemma index_inv_mono:
  assumes "pageCount q \<le> pageCount p" and "index_inv q s"
  shows "index_inv p s"
proof -
  from assms(1) have "real (pageCount q) \<le> real (pageCount p)"
    by simp
  with assms(2) show ?thesis
    unfolding index_inv_def by linarith
qed

lemma index_inv_scrollTo_mounted:
  "scrollerRef s = Some el \<Longrightarrow> index_inv p (scrollTo p i a s)"
  by (simp add: scrollTo_mounted Let_def index_inv_def clamp_def)

lemma index_inv_scrollTo:
  assumes "pageCount q \<le> pageCount p" and "index_inv p s"
  shows "index_inv p (scrollTo q i a s)"
proof (cases "scrollerRef s")
  case None
  with assms(2) show ?thesis by (simp add: scrollTo_unmounted)
next
  case (Some el)
  then have "index_inv q (scrollTo q i a s)" by (rule index_inv_scrollTo_mounted)
  with assms(1) show ?thesis by (rule index_inv_mono)
qed

lemma index_inv_emit: "index_inv p (emit ev s) = index_inv p s"
  by (simp add: index_inv_def emit_def)

lemma index_inv_emitState: "index_inv p (emitState q st s) = index_inv p s"
  by (simp add: emitState_def index_inv_emit)

lemma index_inv_snap:
  "pageCount q \<le> pageCount p \<Longrightarrow> index_inv p s \<Longrightarrow>
   index_inv p (uncaught (snapToNearest q a s))"
  by (cases "scrollerRef s")
     (simp_all add: snapToNearest_mounted snapToNearest_unmounted index_inv_emit index_inv_scrollTo)

lemma index_inv_settleCallback:
  "pageCount q \<le> pageCount p \<Longrightarrow> index_inv p s \<Longrightarrow>
   index_inv p (uncaught (settleCallback q s))"
  by (cases "scrollerRef s")
     (simp_all add: settleCallback_mounted settleCallback_unmounted index_inv_emit
        index_inv_emitState index_inv_snap)

lemma index_inv_fireTimers:
  "list_all (\<lambda>pending. pageCount (snd (snd pending)) \<le> pageCount p) ts \<Longrightarrow>
   index_inv p s \<Longrightarrow> index_inv p (fireTimers ts s)"
  by (induction ts arbitrary: s) (simp_all add: index_inv_settleCallback)

lemma index_inv_emitPageScroll:
  "index_inv p s \<Longrightarrow> index_inv p (uncaught (emitPageScroll q s))"
proof (cases "scrollerRef s")
  case None
  then show "index_inv p s \<Longrightarrow> index_inv p (uncaught (emitPageScroll q s))"
    by (simp add: emitPageScroll_def getMetrics_def index_inv_emit)
next
  case (Some el)
  then show "index_inv p s \<Longrightarrow> index_inv p (uncaught (emitPageScroll q s))"
    by (simp add: emitPageScroll_mounted index_inv_emit)
qed

lemma index_inv_endDrag:
  assumes "pageCount q \<le> pageCount p" and "index_inv p s"
  shows "index_inv p (uncaught (endDrag q pointerId s))"
proof (cases "orientation q = Horizontal \<and> draggingRef s")
  case False
  then show ?thesis
    using assms(2) by (auto simp add: endDrag_def)
next
  case True
  let ?t = "emitState q Settling ((releaseCapture pointerId s)\<lparr>draggingRef := False\<rparr>)"
  have t: "index_inv p ?t"
    using assms(2)
    by (simp add: index_inv_emitState) (simp add: index_inv_def currentIndexRef_releaseCapture)
  show ?thesis
  proof (cases "scrollerRef ?t")
    case None
    then show ?thesis
      using True t by (simp add: endDrag_def Let_def snapToNearest_unmounted index_inv_emit)
  next
    case (Some el')
    then have "scrollerRef ?t \<noteq> None" by simp
    then have "uncaught (endDrag q pointerId s) =
        (restoreVisuals (emitState q Idle (uncaught (snapToNearest q True ?t))))\<lparr>startRef := None\<rparr>"
      using True by (simp add: endDrag_def Let_def snap_case)
    moreover have "index_inv p (emitState q Idle (uncaught (snapToNearest q True ?t)))"
      using t assms(1) by (simp add: index_inv_emitState index_inv_snap)
    ultimately show ?thesis
      by (simp add: index_inv_def restoreVisuals_def split: option.splits)
  qed
qed

lemma index_inv_deliver:
  assumes "pageCount q \<le> pageCount p" and "index_inv p s" and "closures_within p s"
  shows "index_inv p (deliver q e s)"
proof (cases e)
  case (Scroll sl)
  show ?thesis
  proof (cases "scrollerRef s")
    case None
    then show ?thesis using assms(2) Scroll by (simp add: deliver_def)
  next
    case (Some el)
    let ?s = "s\<lparr>scrollerRef := Some (el\<lparr>scrollLeft := sl\<rparr>)\<rparr>"
    have "index_inv p ?s" using assms(2) by (simp add: index_inv_def)
    then have "index_inv p (uncaught (emitPageScroll q ?s))"
      by (rule index_inv_emitPageScroll)
    then have "index_inv p (uncaught (onScroll q ?s))"
      using \<open>index_inv p ?s\<close>
      by (auto simp add: onScroll_def emitPageScroll_mounted [where el = "el\<lparr>scrollLeft := sl\<rparr>"]
            startSettleTimer_def clearSettleTimer_def Let_def index_inv_def split: option.splits)
    then show ?thesis using Some Scroll by (simp add: deliver_def)
  qed
next
  case (PointerDown pointerId clientX)
  then show ?thesis
    using assms(2)
    by (auto simp add: deliver_def onPointerDown_def Let_def index_inv_def emitState_def emit_def
          clearSettleTimer_def split: option.splits)
next
  case (PointerMove clientX)
  show ?thesis
  proof (cases "scrollerRef s")
    case None
    then show ?thesis using assms(2) PointerMove by (simp add: deliver_def onPointerMove_def)
  next
    case (Some el)
    then show ?thesis
      using assms(2) PointerMove
      by (auto simp add: deliver_def onPointerMove_def Let_def emitPageScroll_mounted
            index_inv_def emit_def split: option.splits)
  qed
next
  case (Elapse d)
  let ?due = "filter (\<lambda>pending. fst (snd pending) \<le> now s + d) (timers s)"
  have "index_inv p (s\<lparr>now := now s + d,
      timers := filter (\<lambda>pending. \<not> fst (snd pending) \<le> now s + d) (timers s)\<rparr>)"
    using assms(2) by (simp add: index_inv_def)
  moreover have "list_all (\<lambda>pending. pageCount (snd (snd pending)) \<le> pageCount p) ?due"
    using assms(3) by (simp add: closures_within_def list_all_iff)
  ultimately show ?thesis
    using Elapse by (simp add: deliver_def elapse_def Let_def index_inv_fireTimers)
next
  case (PointerUp pointerId)
  then show ?thesis
    using assms(1,2) by (simp add: deliver_def onPointerUp_def index_inv_endDrag)
next
  case (PointerCancel pointerId)
  then show ?thesis
    using assms(1,2) by (simp add: deliver_def onPointerCancel_def index_inv_endDrag)
next
  case (SetScrollEnabled enabled)
  then show ?thesis
    using assms(2) by (simp add: deliver_def setScrollEnabled_def index_inv_def)
qed (use assms(1,2) in \<open>simp_all add: deliver_def setPage_def setPageWithoutAnimation_def
       index_inv_scrollTo\<close>)

lemma timers_deliver:
  assumes "pending \<in> set (timers (deliver q e s))"
  shows "pending \<in> set (timers s) \<or> snd (snd pending) = q"
proof (cases e)
  case (Scroll sl)
  show ?thesis
  proof (cases "scrollerRef s")
    case None
    then show ?thesis using assms Scroll by (simp add: deliver_def)
  next
    case (Some el)
    let ?s = "s\<lparr>scrollerRef := Some (el\<lparr>scrollLeft := sl\<rparr>)\<rparr>"
    let ?u = "uncaught (emitPageScroll q ?s)"
    have u: "timers ?u = timers s"
      by (simp add: timers_emitPageScroll)
    have "deliver q e s = ?s \<or> deliver q e s = ?u \<or> deliver q e s = startSettleTimer q ?u"
      using Some Scroll
      by (simp add: deliver_def onScroll_def
            emitPageScroll_mounted [where el = "el\<lparr>scrollLeft := sl\<rparr>"])
    moreover have "pending \<in> set (timers s) \<or> snd (snd pending) = q"
      if "pending \<in> set (timers (startSettleTimer q ?u))"
      using that u
      by (auto simp add: startSettleTimer_def clearSettleTimer_def Let_def split: option.splits)
    ultimately show ?thesis
      using assms u by auto
  qed
next
  case (PointerDown pointerId clientX)
  then show ?thesis
    using assms
    by (auto simp add: deliver_def onPointerDown_def Let_def emitState_def emit_def
          clearSettleTimer_def split: option.splits if_splits)
next
  case (PointerMove clientX)
  have "timers (uncaught (emitPageScroll q t)) = timers s" if "timers t = timers s" for t
    using that by (simp add: timers_emitPageScroll)
  then show ?thesis
    using assms PointerMove
    by (auto simp add: deliver_def onPointerMove_def Let_def split: option.splits if_splits)
next
  case (PointerUp pointerId)
  then show ?thesis
    using assms by (simp add: deliver_def onPointerUp_def timers_endDrag)
next
  case (PointerCancel pointerId)
  then show ?thesis
    using assms by (simp add: deliver_def onPointerCancel_def timers_endDrag)
next
  case (Elapse d)
  then show ?thesis
    using assms by (simp add: deliver_def elapse_def Let_def fireTimers_fields)
qed (use assms in \<open>simp_all add: deliver_def setPage_def setPageWithoutAnimation_def
       setScrollEnabled_def scrollTo_fields\<close>)

lemma closures_within_deliver:
  assumes "pageCount q \<le> pageCount p" and "closures_within p s"
  shows "closures_within p (deliver q e s)"
  using assms timers_deliver [of _ q e s]
  by (auto simp add: closures_within_def list_all_iff)

lemma index_inv_runRenders:
  "list_all (\<lambda>render. pageCount (fst render) \<le> pageCount p) renders \<Longrightarrow>
   index_inv p s \<Longrightarrow> closures_within p s \<Longrightarrow>
   index_inv p (runRenders renders s) \<and> closures_within p (runRenders renders s)"
proof (induction renders arbitrary: s)
  case Nil
  then show ?case by simp
next
  case (Cons render renders)
  obtain q e where r: "render = (q, e)" by (cases render)
  with Cons.prems(1) have q: "pageCount q \<le> pageCount p"
    and rest: "list_all (\<lambda>render. pageCount (fst render) \<le> pageCount p) renders"
    by simp_all
  have "index_inv p (deliver q e s)"
    using q Cons.prems(2,3) by (rule index_inv_deliver)
  moreover have "closures_within p (deliver q e s)"
    using q Cons.prems(3) by (rule closures_within_deliver)
  ultimately show ?case
    using Cons.IH [OF rest] by (simp add: r)
qed

subsection \<open>The concrete instances\<close>

lemmas model_defs = setPage_def setPageWithoutAnimation_def setScrollEnabled_def
  scrollTo_def onPageSelected_def emit_def emitState_def clearSettleTimer_def startSettleTimer_def
  emitPageScroll_def snapToNearest_def getMetrics_def settleCallback_def onScroll_def
  onPointerDown_def onPointerMove_def releaseCapture_def restoreVisuals_def endDrag_def
  onPointerUp_def onPointerCancel_def elapse_def deliver_def uncaught_def initialState_def
  clamp_def Let_def

lemma demoPager_facts:
  "scrollerRef demoPager = Some demoElement" "currentIndexRef demoPager = 0"
  "emitted demoPager = []" "scrollEnabledRef demoPager" "\<not> draggingRef demoPager"
  "timers demoPager = []" "settleTimer demoPager = None" "now demoPager = 0"
  "nextTimerId demoPager = 1" "bodyUserSelect demoPager = ''text''"
  by (simp_all add: demoPager_def demoProps_def initialState_def)

lemma demoProps_facts:
  "orientation demoProps = Horizontal" "layoutDirection demoProps = Ltr" "pageCount demoProps = 3"
  "pageMargin demoProps = 0" "initialPage demoProps = 0" "has_onPageScroll demoProps"
  "has_onPageSelected demoProps" "has_onPageScrollStateChanged demoProps"
  by (simp_all add: demoProps_def)

lemma demoElement_facts:
  "clientWidth demoElement = 100" "scrollLeft demoElement = 0" "cursor demoElement = ''grab''"
  by (simp_all add: demoElement_def)

lemma demoDragging_facts:
  "scrollerRef demoDragging = Some demoDragged" "draggingRef demoDragging"
  "currentIndexRef demoDragging = 0" "emitted demoDragging =
     [PageScrollStateChanged Dragging, PageScroll 1 (3 / 5)]"
  by (simp_all add: demoDragging_def demoDragged_def demoPager_def demoProps_def demoElement_def
        model_defs)

lemma demoPager_timer_inv: "timer_inv demoPager"
  by (simp add: timer_inv_def demoPager_facts)

lemma demoDragging_timer_inv: "timer_inv demoDragging"
  by (simp add: timer_inv_def demoDragging_def demoPager_def demoProps_def demoElement_def
        model_defs)

section \<open>Snapping\<close>

text \<open>
  Claim C1, as the component has it. With the scroller mounted, \<open>snapToNearest\<close> does
  nothing when the step is 0; otherwise it rounds \<open>raw / step\<close>, clamps the result to
  the page range, and issues one scroll command to the clamped index times the step,
  negated under a right-to-left layout. With a positive step, a drag release issues
  that command with animation; when the host has carried it out, whatever offsets the
  animation passed through, and the settle timeout has fired, the scroller is at the
  clamped index times the step, no timeout is pending, and the last command issued is
  to that same offset, so the scroller rests there. The offset is
  \<open>round (raw / step) * step\<close> when the rounded value is within the page range.
\<close>

theorem snapToNearest_scroll_command:
  assumes "scrollerRef s = Some el"
    and "step = clientWidth el + pageMargin p" and "raw = abs (scrollLeft el)"
    and "idx = clamp (of_int (round (raw / step))) 0 (max 0 (real (pageCount p) - 1))"
    and "target = (if layoutDirection p = Rtl then - (idx * step) else idx * step)"
  shows "snapToNearest p animated s = Inr (if step = 0 then s else scrollTo p idx animated s)
       \<and> idx = clamp (of_int (round (raw / step))) 0 (real (pageCount p) - 1)
       \<and> scrollCommands (emitted (uncaught (snapToNearest p animated s))) =
           scrollCommands (emitted s) @ (if step = 0 then [] else [(target, animated)])
       \<and> (orientation p = Horizontal \<and> draggingRef s \<longrightarrow>
            scrollCommands (emitted (uncaught (endDrag p pointerId s))) =
              scrollCommands (emitted s) @ (if step = 0 then [] else [(target, True)]))
       \<and> (0 < step \<and> orientation p = Horizontal \<and> draggingRef s \<and> timer_inv s
            \<and> (release = PointerUp pointerId \<or> release = PointerCancel pointerId)
            \<and> list_all (\<lambda>tick. snd tick < 120) frames \<and> 120 \<le> d \<longrightarrow>
            map_option scrollLeft (scrollerRef
                (deliver p (Elapse d) (hostScrolls p (run p (release # passiveTicks frames) s))))
              = Some target
            \<and> abs target = idx * step
            \<and> scrollCommands (emitted
                (deliver p (Elapse d) (hostScrolls p (run p (release # passiveTicks frames) s))))
              = scrollCommands (emitted s) @ [(target, True), (target, True)]
            \<and> timers
                (deliver p (Elapse d) (hostScrolls p (run p (release # passiveTicks frames) s))) = []
            \<and> \<not> draggingRef
                (deliver p (Elapse d) (hostScrolls p (run p (release # passiveTicks frames) s))))
       \<and> (0 < step \<and> of_int (round (raw / step)) \<le> max 0 (real (pageCount p) - 1) \<longrightarrow>
            idx * step = of_int (round (raw / step)) * step)"
proof -
  have idx: "idx = snapIndex p el"
    unfolding assms(2-4) snapIndex_def ..
  have target: "target = snapTarget p el"
    unfolding assms(5) idx snapTarget_def assms(2) ..
  have snap: "snapToNearest p animated s = Inr (if step = 0 then s else scrollTo p idx animated s)"
    unfolding assms(2-4) using assms(1) by (simp add: snapToNearest_mounted)
  have noPages: "idx = clamp (of_int (round (raw / step))) 0 (real (pageCount p) - 1)"
    unfolding assms(4) by (rule clamp_no_pages)
  have cmd: "scrollCommands (emitted (uncaught (snapToNearest p animated s))) =
           scrollCommands (emitted s) @ (if step = 0 then [] else [(target, animated)])"
    unfolding target assms(2)
    by (simp add: emitted_snap [OF assms(1)] log_append snapEvents_commands) (simp add: snapEvents_def)
  have drag: "scrollCommands (emitted (uncaught (endDrag p pointerId s))) =
              scrollCommands (emitted s) @ (if step = 0 then [] else [(target, True)])"
    if "orientation p = Horizontal" and "draggingRef s"
    unfolding target assms(2)
    by (simp add: emitted_endDrag [OF assms(1) that] log_append stateEvent_others
          snapEvents_commands) (simp add: snapEvents_def)
  have inrange: "idx * step = of_int (round (raw / step)) * step"
    if "0 < step" and "of_int (round (raw / step)) \<le> max 0 (real (pageCount p) - 1)"
  proof -
    have "0 \<le> raw / step"
      using that(1) assms(3) by simp
    then have "0 \<le> round (raw / step)"
      by (simp add: round_def)
    then have "(0::real) \<le> of_int (round (raw / step))"
      by simp
    with that(2) show ?thesis
      by (simp add: assms(4) clamp_def)
  qed
  have rest: "map_option scrollLeft (scrollerRef
                (deliver p (Elapse d) (hostScrolls p (run p (release # passiveTicks frames) s))))
              = Some target
            \<and> abs target = idx * step
            \<and> scrollCommands (emitted
                (deliver p (Elapse d) (hostScrolls p (run p (release # passiveTicks frames) s))))
              = scrollCommands (emitted s) @ [(target, True), (target, True)]
            \<and> timers
                (deliver p (Elapse d) (hostScrolls p (run p (release # passiveTicks frames) s))) = []
            \<and> \<not> draggingRef
                (deliver p (Elapse d) (hostScrolls p (run p (release # passiveTicks frames) s)))"
    if h: "0 < step \<and> orientation p = Horizontal \<and> draggingRef s \<and> timer_inv s
            \<and> (release = PointerUp pointerId \<or> release = PointerCancel pointerId)
            \<and> list_all (\<lambda>tick. snd tick < 120) frames \<and> 120 \<le> d"
  proof -
    from h have pos: "0 < clientWidth el + pageMargin p" and o: "orientation p = Horizontal"
      and dr: "draggingRef s" and inv: "timer_inv s"
      and rel: "release = PointerUp pointerId \<or> release = PointerCancel pointerId"
      and fr: "list_all (\<lambda>tick. snd tick < 120) frames" and d: "120 \<le> d"
      by (simp_all add: assms(2))
    from pos have nz: "clientWidth el + pageMargin p \<noteq> 0" by simp
    let ?s1 = "deliver p release s"
    let ?s2 = "run p (passiveTicks frames) ?s1"
    have s1: "?s1 = uncaught (endDrag p pointerId s)"
      using rel by (auto simp add: deliver_def onPointerUp_def onPointerCancel_def)
    note r = release_facts [OF assms(1) o dr nz, of pointerId, folded s1]
    have m1: "scrollerRef ?s1 \<noteq> None"
      using r(3) by auto
    have i1: "timer_inv ?s1"
      using inv by (simp add: s1 timer_inv_def timers_endDrag)
    note q = passiveTicks_quiet [OF o fr m1 r(4) i1]
    note k = passiveTicks_keeps [OF o fr m1 r(4) i1]
    from q k r(3) obtain el2 where el2: "scrollerRef ?s2 = Some el2"
      and w2: "clientWidth el2 = clientWidth el"
      by auto
    have c2: "scrollCommands (emitted ?s2) = scrollCommands (emitted s) @ [(snapTarget p el, True)]"
      using k r(1) by simp
    then have host: "hostScrolls p ?s2 = deliver p (Scroll (snapTarget p el)) ?s2"
      by (simp add: hostScrolls_def)
    have d2: "\<not> draggingRef ?s2" and i2: "timer_inv ?s2"
      using q by simp_all
    note fin = settle_at_target [OF el2 o d2 i2 d pos w2, unfolded run_two, folded host]
    have "run p (release # passiveTicks frames) s = ?s2"
      by simp
    then show ?thesis
      using fin c2 snapIndex_fixed(3) [OF pos, of "el\<lparr>scrollLeft := snapTarget p el\<rparr>"]
      by (simp add: target idx assms(2))
  qed
  show ?thesis
    using snap noPages cmd drag rest inrange by blast
qed

theorem snapToNearest_scroll_command_witness:
  "scrollerRef demoDragging = Some demoDragged
   \<and> (0::real) < 100 \<and> orientation demoProps = Horizontal \<and> draggingRef demoDragging
   \<and> timer_inv demoDragging
   \<and> list_all (\<lambda>tick. snd tick < 120) [(170, 16 :: nat), (190, 16)] \<and> (120 :: nat) \<le> 120
   \<and> of_int (round (160 / 100 :: real)) \<le> max 0 (real (pageCount demoProps) - 1)
   \<and> snapToNearest demoProps True demoDragging = Inr (scrollTo demoProps 2 True demoDragging)
   \<and> scrollCommands (emitted (uncaught (endDrag demoProps 1 demoDragging))) = [(200, True)]
   \<and> map_option scrollLeft (scrollerRef (deliver demoProps (Elapse 120)
         (hostScrolls demoProps
           (run demoProps (PointerUp 1 # passiveTicks [(170, 16), (190, 16)]) demoDragging))))
        = Some 200
   \<and> \<bar>200 :: real\<bar> = 2 * 100"
proof -
  have h: "scrollerRef demoDragging = Some demoDragged"
    "(100::real) = clientWidth demoDragged + pageMargin demoProps"
    "(160::real) = abs (scrollLeft demoDragged)"
    "(2::real) = clamp (of_int (round (160 / 100 :: real))) 0 (max 0 (real (pageCount demoProps) - 1))"
    "(200::real) = (if layoutDirection demoProps = Rtl then - (2 * 100) else 2 * 100)"
    by (simp_all add: demoDragging_facts demoDragged_def demoProps_def clamp_def round_def)
  have g: "orientation demoProps = Horizontal" "draggingRef demoDragging"
    "of_int (round (160 / 100 :: real)) \<le> max 0 (real (pageCount demoProps) - 1)"
    "timer_inv demoDragging"
    "list_all (\<lambda>tick. snd tick < 120) [(170, 16 :: nat), (190, 16)]"
    "scrollCommands (emitted demoDragging) = []"
    by (simp_all add: demoDragging_facts demoProps_def round_def demoDragging_timer_inv)
  from snapToNearest_scroll_command [OF h, of True 1 "PointerUp 1" "[(170, 16), (190, 16)]" 120]
  show ?thesis
    using h(1) g by simp
qed

text \<open>
  Claim C1 as stated fails once the rounded value is beyond the last page: two pages of
  width 100 with margin 100 give step 200; a drag to raw offset 300 rounds to index 2,
  which is clamped to 1, so the release scrolls to 200 and the scroller rests at 200, not
  at \<open>round (300 / 200) * 200 = 400\<close>.
\<close>

theorem snap_after_drag_counterexample:
  "map_option scrollLeft (scrollerRef (run demoMarginProps [PointerDown 1 0, PointerMove (- 300)]
      (initialState demoMarginProps (Some demoElement) ''text''))) = Some 300
   \<and> scrollCommands (emitted (run demoMarginProps
        [PointerDown 1 0, PointerMove (- 300), PointerUp 1]
        (initialState demoMarginProps (Some demoElement) ''text''))) = [(200, True)]
   \<and> map_option scrollLeft (scrollerRef (deliver demoMarginProps (Elapse 120)
        (hostScrolls demoMarginProps (run demoMarginProps
          [PointerDown 1 0, PointerMove (- 300), PointerUp 1]
          (initialState demoMarginProps (Some demoElement) ''text''))))) = Some 200
   \<and> of_int (round (abs 300 / (100 + 100 :: real))) * (100 + 100) = (400 :: real)"
  by (simp add: demoMarginProps_def demoProps_def demoElement_def model_defs hostScrolls_def
        round_def)

section \<open>Selection events\<close>

text \<open>
  Claim C2. With the scroller mounted and a selection observer registered, a call of the
  navigation operation (through \<open>setPage\<close>, \<open>setPageWithoutAnimation\<close> or
  \<open>snapToNearest\<close>) emits a selection event exactly when the clamped target differs
  from the committed index, and the committed index is the clamped target afterwards. A
  second \<open>setPage\<close> with the same index emits no further selection event.
\<close>

theorem navigation_selects_iff_index_changes:
  assumes "scrollerRef s = Some el" and "has_onPageSelected p"
    and "i = clamp index 0 (max 0 (real (pageCount p) - 1))"
    and "step = clientWidth el + pageMargin p"
    and "j = clamp (of_int (round (abs (scrollLeft el) / step))) 0 (max 0 (real (pageCount p) - 1))"
  shows "selections (emitted (scrollTo p index animated s)) =
           selections (emitted s) @ (if i \<noteq> currentIndexRef s then [i] else [])
       \<and> currentIndexRef (scrollTo p index animated s) = i
       \<and> selections (emitted (setPage p index s)) =
           selections (emitted s) @ (if i \<noteq> currentIndexRef s then [i] else [])
       \<and> selections (emitted (setPageWithoutAnimation p index s)) =
           selections (emitted s) @ (if i \<noteq> currentIndexRef s then [i] else [])
       \<and> selections (emitted (uncaught (snapToNearest p animated s))) =
           selections (emitted s) @ (if step \<noteq> 0 \<and> j \<noteq> currentIndexRef s then [j] else [])
       \<and> selections (emitted (setPage p index (setPage p index s))) =
           selections (emitted (setPage p index s))"
proof -
  have nav: "selections (emitted (scrollTo p k a s)) =
           selections (emitted s) @
             (if clamp k 0 (max 0 (real (pageCount p) - 1)) \<noteq> currentIndexRef s
              then [clamp k 0 (max 0 (real (pageCount p) - 1))] else [])
       \<and> currentIndexRef (scrollTo p k a s) = clamp k 0 (max 0 (real (pageCount p) - 1))" for k a
    using assms(1,2) by (auto simp add: scrollTo_mounted Let_def log_append)
  have mounted': "scrollerRef (setPage p index s) = Some el"
    using assms(1) by (simp add: setPage_def scrollTo_fields)
  have twice: "selections (emitted (setPage p index (setPage p index s))) =
           selections (emitted (setPage p index s))"
    using mounted' assms(1,2)
    by (simp add: setPage_def scrollTo_mounted [where el = el] Let_def log_append clamp_idem)
  have snap: "selections (emitted (uncaught (snapToNearest p animated s))) =
           selections (emitted s) @ (if step \<noteq> 0 \<and> j \<noteq> currentIndexRef s then [j] else [])"
  proof -
    have "clamp j 0 (max 0 (real (pageCount p) - 1)) = j"
      unfolding assms(5) by (simp add: clamp_idem)
    with nav [of j animated]
    have sel: "selections (emitted (scrollTo p j animated s)) =
           selections (emitted s) @ (if j \<noteq> currentIndexRef s then [j] else [])"
      by simp
    have u: "uncaught (snapToNearest p animated s) =
           (if step = 0 then s else scrollTo p j animated s)"
      unfolding assms(4,5) using assms(1) by (simp add: snapToNearest_mounted)
    show ?thesis
    proof (cases "step = 0")
      case True
      with u show ?thesis by simp
    next
      case False
      with u have "uncaught (snapToNearest p animated s) = scrollTo p j animated s"
        by simp
      with sel False show ?thesis by simp
    qed
  qed
  show ?thesis
    using nav [of index] twice snap assms(3)
    by (simp add: setPage_def setPageWithoutAnimation_def)
qed

theorem navigation_selects_iff_index_changes_witness:
  "scrollerRef demoPager = Some demoElement \<and> has_onPageSelected demoProps
   \<and> currentIndexRef demoPager = 0
   \<and> selections (emitted (setPage demoProps 7 demoPager)) = [2]
   \<and> selections (emitted (setPage demoProps 7 (setPage demoProps 7 demoPager))) = [2]
   \<and> selections (emitted (uncaught (snapToNearest demoProps True demoPager))) = []"
proof -
  have h: "scrollerRef demoPager = Some demoElement" "has_onPageSelected demoProps"
    "(2::real) = clamp 7 0 (max 0 (real (pageCount demoProps) - 1))"
    "(100::real) = clientWidth demoElement + pageMargin demoProps"
    "(0::real) = clamp (of_int (round (abs (scrollLeft demoElement) / 100))) 0
        (max 0 (real (pageCount demoProps) - 1))"
    by (simp_all add: demoPager_facts demoProps_facts demoElement_facts clamp_def)
  from navigation_selects_iff_index_changes [OF h, of True]
  show ?thesis
    using h(1,2) by (simp add: demoPager_facts)
qed

section \<open>The range of the committed index\<close>

text \<open>
  Claim C3, as the component has it. Let \<open>p\<close> be the current render. If \<open>initialPage\<close>
  lies between 0 and \<open>max 0 (pageCount - 1)\<close> and no render so far had more pages than
  \<open>p\<close> has (no page has been removed), the committed index lies between 0 and
  \<open>max 0 (pageCount p - 1)\<close>: this holds of the initial value and after every sequence of
  events, each handled by the closure of its own render, the settle timeout by the closure
  of the render that set it. Every single event preserves the range under the same
  condition, and a navigation that reaches the mounted scroller establishes it.
\<close>

theorem committed_index_stays_in_range:
  "(0 \<le> initialPage p0 \<and> initialPage p0 \<le> max 0 (real (pageCount p0) - 1)
      \<and> pageCount p0 \<le> pageCount p
      \<and> list_all (\<lambda>render. pageCount (fst render) \<le> pageCount p) renders \<longrightarrow>
      index_inv p (runRenders renders (initialState p0 mounted userSelect)))
   \<and> (index_inv p s \<and> closures_within p s \<and> pageCount q \<le> pageCount p \<longrightarrow>
        index_inv p (deliver q e s) \<and> closures_within p (deliver q e s))
   \<and> (scrollerRef s = Some el \<longrightarrow>
        index_inv p (deliver p InitialFrame s) \<and> index_inv p (scrollTo p index animated s))"
proof (intro conjI impI)
  assume h: "0 \<le> initialPage p0 \<and> initialPage p0 \<le> max 0 (real (pageCount p0) - 1)
      \<and> pageCount p0 \<le> pageCount p
      \<and> list_all (\<lambda>render. pageCount (fst render) \<le> pageCount p) renders"
  then have "index_inv p0 (initialState p0 mounted userSelect)"
    by (simp add: index_inv_def initialState_def)
  moreover from h have "pageCount p0 \<le> pageCount p"
    by simp
  ultimately have "index_inv p (initialState p0 mounted userSelect)"
    by (rule index_inv_mono [rotated])
  moreover have "closures_within p (initialState p0 mounted userSelect)"
    by (simp add: closures_within_def initialState_def)
  ultimately show "index_inv p (runRenders renders (initialState p0 mounted userSelect))"
    using h by (simp add: index_inv_runRenders)
next
  assume "index_inv p s \<and> closures_within p s \<and> pageCount q \<le> pageCount p"
  then show "index_inv p (deliver q e s)" and "closures_within p (deliver q e s)"
    by (simp_all add: index_inv_deliver closures_within_deliver)
next
  assume "scrollerRef s = Some el"
  then show "index_inv p (deliver p InitialFrame s)" and "index_inv p (scrollTo p index animated s)"
    by (simp_all add: deliver_def index_inv_scrollTo_mounted)
qed

theorem committed_index_stays_in_range_witness:
  "0 \<le> initialPage demoProps \<and> initialPage demoProps \<le> max 0 (real (pageCount demoProps) - 1)
   \<and> pageCount demoProps \<le> pageCount (demoProps\<lparr>pageCount := 5\<rparr>)
   \<and> list_all (\<lambda>render. pageCount (fst render) \<le> pageCount (demoProps\<lparr>pageCount := 5\<rparr>))
        [(demoProps, Scroll 130), (demoProps\<lparr>pageCount := 5\<rparr>, SetPage 7),
         (demoProps\<lparr>pageCount := 5\<rparr>, Elapse 200)]
   \<and> index_inv (demoProps\<lparr>pageCount := 5\<rparr>) demoPager
   \<and> closures_within (demoProps\<lparr>pageCount := 5\<rparr>) demoPager
   \<and> scrollerRef demoPager = Some demoElement
   \<and> index_inv (demoProps\<lparr>pageCount := 5\<rparr>)
        (runRenders [(demoProps, Scroll 130), (demoProps\<lparr>pageCount := 5\<rparr>, SetPage 7),
           (demoProps\<lparr>pageCount := 5\<rparr>, Elapse 200)]
         (initialState demoProps (Some demoElement) ''text''))
   \<and> index_inv (demoProps\<lparr>pageCount := 5\<rparr>) (deliver demoProps (SetPage (- 3)) demoPager)
   \<and> index_inv (demoProps\<lparr>pageCount := 5\<rparr>)
        (deliver (demoProps\<lparr>pageCount := 5\<rparr>) InitialFrame demoPager)"
proof -
  have h: "0 \<le> initialPage demoProps \<and> initialPage demoProps \<le> max 0 (real (pageCount demoProps) - 1)
      \<and> pageCount demoProps \<le> pageCount (demoProps\<lparr>pageCount := 5\<rparr>)
      \<and> list_all (\<lambda>render. pageCount (fst render) \<le> pageCount (demoProps\<lparr>pageCount := 5\<rparr>))
        [(demoProps, Scroll 130), (demoProps\<lparr>pageCount := 5\<rparr>, SetPage 7),
         (demoProps\<lparr>pageCount := 5\<rparr>, Elapse 200)]"
    "index_inv (demoProps\<lparr>pageCount := 5\<rparr>) demoPager
      \<and> closures_within (demoProps\<lparr>pageCount := 5\<rparr>) demoPager
      \<and> pageCount demoProps \<le> pageCount (demoProps\<lparr>pageCount := 5\<rparr>)"
    "scrollerRef demoPager = Some demoElement"
    by (simp_all add: demoPager_facts demoProps_facts index_inv_def closures_within_def)
  from committed_index_stays_in_range
         [of demoProps "demoProps\<lparr>pageCount := 5\<rparr>"
             "[(demoProps, Scroll 130), (demoProps\<lparr>pageCount := 5\<rparr>, SetPage 7),
               (demoProps\<lparr>pageCount := 5\<rparr>, Elapse 200)]"
             "Some demoElement" "''text''" demoPager demoProps "SetPage (- 3)" demoElement 0 False]
  show ?thesis
    using h by blast
qed

text \<open>
  Claim C3 as stated fails in two ways. The cell is initialised with \<open>initialPage\<close>
  unclamped, so with three pages and \<open>initialPage = 5\<close> the committed index starts at 5.
  And nothing clamps the committed index again when pages are removed: after
  \<open>setPage 2\<close> on three pages it is 2, beyond the range of a render with one page; and a
  settle timeout set by the render with three pages commits 2 after the render with one
  page, where the committed index was 0 before.
\<close>

theorem initial_index_counterexample:
  "0 \<le> initialPage (demoProps\<lparr>initialPage := 5\<rparr>)
   \<and> \<not> index_inv (demoProps\<lparr>initialPage := 5\<rparr>)
        (initialState (demoProps\<lparr>initialPage := 5\<rparr>) (Some demoElement) ''text'')
   \<and> \<not> index_inv (demoProps\<lparr>pageCount := 1\<rparr>)
        (runRenders [(demoProps, SetPage 2), (demoProps\<lparr>pageCount := 1\<rparr>, PointerMove 0)] demoPager)
   \<and> index_inv (demoProps\<lparr>pageCount := 1\<rparr>)
        (runRenders [(demoProps, Scroll 200)] demoPager)
   \<and> currentIndexRef (runRenders [(demoProps, Scroll 200),
        (demoProps\<lparr>pageCount := 1\<rparr>, Elapse 120)] demoPager) = 2
   \<and> \<not> index_inv (demoProps\<lparr>pageCount := 1\<rparr>)
        (runRenders [(demoProps, Scroll 200), (demoProps\<lparr>pageCount := 1\<rparr>, Elapse 120)] demoPager)"
  by (simp add: demoPager_def demoProps_def demoElement_def index_inv_def model_defs round_def)

section \<open>The guard on the step\<close>

text \<open>
  Claim C4, as the component has it. The guard is on the step, not on the extent: when
  the extent plus the page margin is 0, the emission of the scroll position and the snap
  return the state unchanged (no event, no scroll command, no division), and the settle
  callback emits only its two state changes.
\<close>

theorem zero_step_skips_position_math:
  assumes "scrollerRef s = Some el" and "clientWidth el + pageMargin p = 0"
  shows "emitPageScroll p s = Inr s \<and> snapToNearest p animated s = Inr s
       \<and> settleCallback p s = Inr (emitState p Idle (emitState p Settling s))"
  using assms
  by (simp add: emitPageScroll_mounted snapToNearest_mounted settleCallback_mounted
        scrollerRef_emitState)

theorem zero_step_skips_position_math_witness:
  "scrollerRef demoUnlaidOut = Some (demoElement\<lparr>clientWidth := 0\<rparr>)
   \<and> clientWidth (demoElement\<lparr>clientWidth := 0\<rparr>) + pageMargin demoProps = 0
   \<and> emitPageScroll demoProps demoUnlaidOut = Inr demoUnlaidOut
   \<and> snapToNearest demoProps True demoUnlaidOut = Inr demoUnlaidOut"
proof -
  have h: "scrollerRef demoUnlaidOut = Some (demoElement\<lparr>clientWidth := 0\<rparr>)"
    "clientWidth (demoElement\<lparr>clientWidth := 0\<rparr>) + pageMargin demoProps = 0"
    by (simp_all add: demoUnlaidOut_def demoProps_facts)
  from zero_step_skips_position_math [OF h, of True]
  show ?thesis
    using h by simp
qed

text \<open>
  Claim C4 as stated fails for a positive page margin: with extent 0 and margin 10 the
  step is 10, so a scroll position event is emitted and the snap issues a scroll command.
\<close>

theorem zero_extent_counterexample:
  "clientWidth (demoElement\<lparr>clientWidth := 0\<rparr>) = 0
   \<and> 0 \<le> pageMargin (demoProps\<lparr>pageMargin := 10\<rparr>)
   \<and> pageScrolls (emitted (uncaught (emitPageScroll (demoProps\<lparr>pageMargin := 10\<rparr>)
        (demoPager\<lparr>scrollerRef := Some (demoElement\<lparr>clientWidth := 0\<rparr>)\<rparr>)))) = [(0, 0)]
   \<and> scrollCommands (emitted (uncaught (snapToNearest (demoProps\<lparr>pageMargin := 10\<rparr>) True
        (demoPager\<lparr>scrollerRef := Some (demoElement\<lparr>clientWidth := 0\<rparr>)\<rparr>)))) = [(0, True)]"
  by (simp add: demoPager_def demoProps_def demoElement_def model_defs round_def)

section \<open>The order of the state changes\<close>

text \<open>
  Claim C5. With the scroller mounted, a horizontal pager, a state observer registered and
  at most the current timeout pending: a drag (an accepted pointer-down, any events other
  than pointer-down, pointer-up and pointer-cancel, then a pointer-up or a pointer-cancel)
  adds exactly dragging, settling, idle to the state changes, in this order; passive
  scroll ticks less than 120 ms apart, followed by 120 ms or more without one, add exactly
  settling, idle. In both, settling and idle are emitted by one handler call with only
  the events of the snap between them.
\<close>

theorem scroll_state_order:
  assumes "scrollerRef s = Some el" and "orientation p = Horizontal"
    and "has_onPageScrollStateChanged p" and "timer_inv s"
  shows "(scrollEnabledRef s \<and> list_all keepsSession moves
          \<and> (release = PointerUp upId \<or> release = PointerCancel upId) \<longrightarrow>
        stateChanges (emitted (run p (PointerDown downId clientX # moves @ [release]) s)) =
          stateChanges (emitted s) @ [Dragging, Settling, Idle]
        \<and> (\<exists>snap. emitted (run p (PointerDown downId clientX # moves @ [release]) s) =
              emitted (run p (PointerDown downId clientX # moves) s)
                @ [PageScrollStateChanged Settling] @ snap @ [PageScrollStateChanged Idle]
              \<and> stateChanges snap = []))
       \<and> (\<not> draggingRef s \<and> list_all (\<lambda>tick. snd tick < 120) ticks \<and> 120 \<le> d \<longrightarrow>
        stateChanges (emitted (run p (passiveTicks ticks @ [Scroll sl, Elapse d]) s)) =
          stateChanges (emitted s) @ [Settling, Idle]
        \<and> (\<exists>snap. emitted (run p (passiveTicks ticks @ [Scroll sl, Elapse d]) s) =
              emitted (run p (passiveTicks ticks @ [Scroll sl]) s)
                @ [PageScrollStateChanged Settling] @ snap @ [PageScrollStateChanged Idle]
              \<and> stateChanges snap = []))"
proof (intro conjI impI)
  assume h: "scrollEnabledRef s \<and> list_all keepsSession moves
          \<and> (release = PointerUp upId \<or> release = PointerCancel upId)"
  then have h': "scrollEnabledRef s" "list_all keepsSession moves"
    "release = PointerUp upId \<or> release = PointerCancel upId"
    by simp_all
  note l = drag_session_log [OF assms h', of downId clientX]
  show "\<exists>snap. emitted (run p (PointerDown downId clientX # moves @ [release]) s) =
              emitted (run p (PointerDown downId clientX # moves) s)
                @ [PageScrollStateChanged Settling] @ snap @ [PageScrollStateChanged Idle]
              \<and> stateChanges snap = []"
    by (rule l(2))
  then obtain snap where
    "emitted (run p (PointerDown downId clientX # moves @ [release]) s) =
       emitted (run p (PointerDown downId clientX # moves) s)
         @ [PageScrollStateChanged Settling] @ snap @ [PageScrollStateChanged Idle]
     \<and> stateChanges snap = []" ..
  then have "stateChanges (emitted (run p (PointerDown downId clientX # moves @ [release]) s)) =
      stateChanges (emitted (run p (PointerDown downId clientX # moves) s)) @ [Settling, Idle]"
    by (rule settled_changes)
  then show "stateChanges (emitted (run p (PointerDown downId clientX # moves @ [release]) s)) =
          stateChanges (emitted s) @ [Dragging, Settling, Idle]"
    by (simp only: l(1)) simp
next
  assume h: "\<not> draggingRef s \<and> list_all (\<lambda>tick. snd tick < 120) ticks \<and> 120 \<le> d"
  then have h': "\<not> draggingRef s" "list_all (\<lambda>tick. snd tick < 120) ticks" "120 \<le> d"
    by simp_all
  note l = passive_session_log [OF assms h', of sl]
  show "\<exists>snap. emitted (run p (passiveTicks ticks @ [Scroll sl, Elapse d]) s) =
              emitted (run p (passiveTicks ticks @ [Scroll sl]) s)
                @ [PageScrollStateChanged Settling] @ snap @ [PageScrollStateChanged Idle]
              \<and> stateChanges snap = []"
    by (rule l(2))
  then obtain snap where
    "emitted (run p (passiveTicks ticks @ [Scroll sl, Elapse d]) s) =
       emitted (run p (passiveTicks ticks @ [Scroll sl]) s)
         @ [PageScrollStateChanged Settling] @ snap @ [PageScrollStateChanged Idle]
     \<and> stateChanges snap = []" ..
  then have "stateChanges (emitted (run p (passiveTicks ticks @ [Scroll sl, Elapse d]) s)) =
      stateChanges (emitted (run p (passiveTicks ticks @ [Scroll sl]) s)) @ [Settling, Idle]"
    by (rule settled_changes)
  then show "stateChanges (emitted (run p (passiveTicks ticks @ [Scroll sl, Elapse d]) s)) =
          stateChanges (emitted s) @ [Settling, Idle]"
    by (simp only: l(1))
qed

theorem scroll_state_order_witness:
  "scrollerRef demoPager = Some demoElement \<and> orientation demoProps = Horizontal
   \<and> has_onPageScrollStateChanged demoProps \<and> timer_inv demoPager
   \<and> scrollEnabledRef demoPager \<and> list_all keepsSession [PointerMove (- 60), Scroll 60]
   \<and> \<not> draggingRef demoPager \<and> list_all (\<lambda>tick. snd tick < 120) [(30, 50 :: nat)]
   \<and> (120 :: nat) \<le> 120
   \<and> stateChanges (emitted (run demoProps
         (PointerDown 1 0 # [PointerMove (- 60), Scroll 60] @ [PointerUp 1]) demoPager)) =
       [Dragging, Settling, Idle]
   \<and> stateChanges (emitted (run demoProps
         (passiveTicks [(30, 50)] @ [Scroll 130, Elapse 120]) demoPager)) = [Settling, Idle]"
proof -
  have h: "scrollerRef demoPager = Some demoElement" "orientation demoProps = Horizontal"
    "has_onPageScrollStateChanged demoProps" "timer_inv demoPager"
    by (simp_all add: demoPager_facts demoProps_facts demoPager_timer_inv)
  have g: "scrollEnabledRef demoPager" "list_all keepsSession [PointerMove (- 60), Scroll 60]"
    "\<not> draggingRef demoPager" "list_all (\<lambda>tick. snd tick < 120) [(30, 50 :: nat)]"
    "stateChanges (emitted demoPager) = []"
    by (simp_all add: demoPager_facts)
  from scroll_state_order [OF h, of "[PointerMove (- 60), Scroll 60]" "PointerUp 1" 1 1 0
         "[(30, 50)]" 120 130]
  show ?thesis
    using h g by simp
qed

section \<open>The settle timer\<close>

text \<open>
  Claim C6. In every state reached from the initial one at most one timeout is pending. A
  passive scroll tick leaves exactly one, due 120 ms after the tick. Two passive ticks
  less than 120 ms apart leave the one of the second tick; nothing is emitted until 120 ms
  after the second tick, and then the state changes are one settling and one idle.
\<close>

theorem one_settle_timer:
  "length (timers (run p es (initialState p mounted userSelect))) \<le> 1
   \<and> (timer_inv s \<and> scrollerRef s = Some el \<and> orientation p = Horizontal \<and> \<not> draggingRef s
        \<and> has_onPageScrollStateChanged p \<and> gap < 120 \<longrightarrow>
      timers (deliver p (Scroll a) s) = [(nextTimerId s, now s + 120, p)]
      \<and> timers (run p [Scroll a, Elapse gap, Scroll b] s) =
          [(nextTimerId s + 1, now s + gap + 120, p)]
      \<and> stateChanges (emitted (run p [Scroll a, Elapse gap, Scroll b] s)) = stateChanges (emitted s)
      \<and> stateChanges (emitted (run p [Scroll a, Elapse gap, Scroll b, Elapse d] s)) =
          stateChanges (emitted s) @ (if d < 120 then [] else [Settling, Idle]))"
proof (intro conjI impI)
  have "timer_inv (run p es (initialState p mounted userSelect))"
    by (intro timer_inv_run timer_inv_initialState)
  then show "length (timers (run p es (initialState p mounted userSelect))) \<le> 1"
    by (simp add: timer_inv_def)
next
  assume h: "timer_inv s \<and> scrollerRef s = Some el \<and> orientation p = Horizontal \<and> \<not> draggingRef s
        \<and> has_onPageScrollStateChanged p \<and> gap < 120"
  then have i: "timer_inv s" and el: "scrollerRef s = Some el" and o: "orientation p = Horizontal"
    and nd: "\<not> draggingRef s" and reg: "has_onPageScrollStateChanged p" and gap: "gap < 120"
    by simp_all
  from el have m: "scrollerRef s \<noteq> None" by simp
  show "timers (deliver p (Scroll a) s) = [(nextTimerId s, now s + 120, p)]"
    using el o nd i by (rule scroll_passive_fields(1))
  let ?s2 = "run p [Scroll a, Elapse gap] s"
  note t = tick_pair [OF m o nd i gap, of a]
  from t(1) obtain el2 where el2: "scrollerRef ?s2 = Some el2" by auto
  note f = scroll_passive_fields [OF el2 o t(2,3), of b]
  have r3: "run p [Scroll a, Elapse gap, Scroll b] s = deliver p (Scroll b) ?s2"
    by simp
  have r4: "run p [Scroll a, Elapse gap, Scroll b, Elapse d] s = run p [Scroll b, Elapse d] ?s2"
    by simp
  show "timers (run p [Scroll a, Elapse gap, Scroll b] s) = [(nextTimerId s + 1, now s + gap + 120, p)]"
    unfolding r3 f(1) t(5,6) by simp
  show c3: "stateChanges (emitted (run p [Scroll a, Elapse gap, Scroll b] s)) = stateChanges (emitted s)"
    unfolding r3 f(7) t(4) by simp
  show "stateChanges (emitted (run p [Scroll a, Elapse gap, Scroll b, Elapse d] s)) =
          stateChanges (emitted s) @ (if d < 120 then [] else [Settling, Idle])"
  proof (cases "d < 120")
    case True
    from quiesce(2) [OF t(1) o t(2,3) True, of b]
    have "emitted (run p [Scroll a, Elapse gap, Scroll b, Elapse d] s) =
        emitted (run p [Scroll a, Elapse gap, Scroll b] s)"
      unfolding r3 r4 .
    with c3 True show ?thesis by simp
  next
    case False
    then have "120 \<le> d" by simp
    from quiesce(3) [OF t(1) o t(2,3) this, of b]
    obtain snap where "emitted (run p [Scroll a, Elapse gap, Scroll b, Elapse d] s) =
        emitted (run p [Scroll a, Elapse gap, Scroll b] s)
          @ [PageScrollStateChanged Settling] @ snap @ [PageScrollStateChanged Idle]
        \<and> stateChanges snap = []"
      unfolding r3 r4 stateEvent_registered [OF reg] by blast
    then have "stateChanges (emitted (run p [Scroll a, Elapse gap, Scroll b, Elapse d] s)) =
        stateChanges (emitted (run p [Scroll a, Elapse gap, Scroll b] s)) @ [Settling, Idle]"
      by (rule settled_changes)
    with c3 False show ?thesis by simp
  qed
qed

theorem one_settle_timer_witness:
  "timer_inv demoPager \<and> scrollerRef demoPager = Some demoElement
   \<and> orientation demoProps = Horizontal \<and> \<not> draggingRef demoPager
   \<and> has_onPageScrollStateChanged demoProps \<and> (50 :: nat) < 120
   \<and> length (timers (run demoProps [Scroll 10, Scroll 20]
        (initialState demoProps (Some demoElement) ''text''))) \<le> 1
   \<and> timers (run demoProps [Scroll 10, Elapse 50, Scroll 20] demoPager) = [(2, 170, demoProps)]
   \<and> stateChanges (emitted (run demoProps [Scroll 10, Elapse 50, Scroll 20, Elapse 100] demoPager))
        = []
   \<and> stateChanges (emitted (run demoProps [Scroll 10, Elapse 50, Scroll 20, Elapse 120] demoPager))
        = [Settling, Idle]"
proof -
  have h: "timer_inv demoPager \<and> scrollerRef demoPager = Some demoElement
      \<and> orientation demoProps = Horizontal \<and> \<not> draggingRef demoPager
      \<and> has_onPageScrollStateChanged demoProps \<and> (50 :: nat) < 120"
    by (simp add: demoPager_facts demoProps_facts demoPager_timer_inv)
  have g: "stateChanges (emitted demoPager) = []" "nextTimerId demoPager + 1 = 2"
    "now demoPager + 50 + 120 = 170"
    by (simp_all add: demoPager_facts)
  from one_settle_timer [of demoProps "[Scroll 10, Scroll 20]" "Some demoElement" "''text''"
         demoPager demoElement 50 10 20 100]
    one_settle_timer [of demoProps "[Scroll 10, Scroll 20]" "Some demoElement" "''text''"
         demoPager demoElement 50 10 20 120]
  show ?thesis
    using h g by simp
qed

section \<open>Out-of-range targets\<close>

text \<open>
  Claim C7. With at least one page and the scroller mounted, \<open>setPage\<close> returns
  normally for every index and commits the index clamped to the range from 0 to
  \<open>pageCount - 1\<close>: 0 for \<open>- 5\<close> and for every negative index, \<open>pageCount - 1\<close>
  for \<open>pageCount + 5\<close> and for every index beyond the last page.
\<close>

theorem setPage_clamps_out_of_range:
  assumes "1 \<le> pageCount p" and "scrollerRef s = Some el"
  shows "dispatch p (SetPage index) s = Inr (setPage p index s)
       \<and> deliver p (SetPage index) s = setPage p index s
       \<and> currentIndexRef (setPage p index s) = clamp index 0 (real (pageCount p) - 1)
       \<and> 0 \<le> currentIndexRef (setPage p index s)
       \<and> currentIndexRef (setPage p index s) \<le> real (pageCount p) - 1
       \<and> currentIndexRef (setPage p (- 5) s) = 0
       \<and> currentIndexRef (setPage p (real (pageCount p) + 5) s) = real (pageCount p) - 1
       \<and> (index < 0 \<longrightarrow> currentIndexRef (setPage p index s) = 0)
       \<and> (real (pageCount p) - 1 < index \<longrightarrow>
            currentIndexRef (setPage p index s) = real (pageCount p) - 1)"
proof -
  have m: "max 0 (real (pageCount p) - 1) = real (pageCount p) - 1"
    using assms(1) by simp
  have cur: "currentIndexRef (setPage p k s) = clamp k 0 (real (pageCount p) - 1)" for k
    using assms(2) by (simp add: setPage_def scrollTo_mounted Let_def m)
  have nonneg: "0 \<le> real (pageCount p) - 1"
    using assms(1) by simp
  show ?thesis
    using nonneg by (simp add: cur deliver_def) (simp add: clamp_def)
qed

theorem setPage_clamps_out_of_range_witness:
  "1 \<le> pageCount demoProps \<and> scrollerRef demoPager = Some demoElement
   \<and> (- 5 :: real) < 0 \<and> real (pageCount demoProps) - 1 < 8
   \<and> dispatch demoProps (SetPage (- 5)) demoPager = Inr (setPage demoProps (- 5) demoPager)
   \<and> currentIndexRef (setPage demoProps (- 5) demoPager) = 0
   \<and> currentIndexRef (setPage demoProps 8 demoPager) = 2"
proof -
  have h: "1 \<le> pageCount demoProps" "scrollerRef demoPager = Some demoElement"
    by (simp_all add: demoPager_facts demoProps_facts)
  from setPage_clamps_out_of_range [OF h, of "- 5"] setPage_clamps_out_of_range [OF h, of 8]
  show ?thesis
    using h by (simp add: demoProps_facts)
qed

section \<open>The scroll position event\<close>

text \<open>
  Claim C9. With a positive step and a scroll observer registered, the event carries
  \<open>floor (raw / step)\<close>, which is not negative, and an offset between 0 and 1. The
  position is not clamped to the page range: once \<open>raw\<close> reaches \<open>pageCount * step\<close>
  it exceeds \<open>pageCount - 1\<close>.
\<close>

theorem emitPageScroll_position_not_clamped:
  assumes "scrollerRef s = Some el" and "has_onPageScroll p"
    and "step = clientWidth el + pageMargin p" and "0 < step"
    and "raw = abs (scrollLeft el)"
  shows "emitPageScroll p s =
           Inr (emit (PageScroll (floor (raw / step))
                       (clamp (raw / step - of_int (floor (raw / step))) 0 1)) s)
       \<and> 0 \<le> floor (raw / step)
       \<and> 0 \<le> clamp (raw / step - of_int (floor (raw / step))) 0 1
       \<and> clamp (raw / step - of_int (floor (raw / step))) 0 1 \<le> 1
       \<and> (real (pageCount p) * step \<le> raw \<longrightarrow> int (pageCount p) - 1 < floor (raw / step))"
proof -
  have e: "emitPageScroll p s =
           Inr (emit (PageScroll (floor (raw / step))
                       (clamp (raw / step - of_int (floor (raw / step))) 0 1)) s)"
    using assms by (simp add: emitPageScroll_mounted)
  have "0 \<le> raw / step"
    using assms(4,5) by simp
  then have f: "0 \<le> floor (raw / step)"
    by simp
  have b: "int (pageCount p) - 1 < floor (raw / step)" if "real (pageCount p) * step \<le> raw"
  proof -
    from that assms(4) have "real (pageCount p) \<le> raw / step"
      by (simp add: pos_le_divide_eq)
    then have "int (pageCount p) \<le> floor (raw / step)"
      by (simp add: le_floor_iff)
    then show ?thesis by simp
  qed
  show ?thesis
    using e f b by (simp add: clamp_def)
qed

theorem emitPageScroll_position_not_clamped_witness:
  "scrollerRef demoOverscrolled = Some (demoElement\<lparr>scrollLeft := 350\<rparr>)
   \<and> has_onPageScroll demoProps \<and> (0::real) < 100
   \<and> real (pageCount demoProps) * 100 \<le> 350
   \<and> emitPageScroll demoProps demoOverscrolled =
        Inr (emit (PageScroll 3 (1 / 2)) demoOverscrolled)
   \<and> int (pageCount demoProps) - 1 < 3"
proof -
  have h: "scrollerRef demoOverscrolled = Some (demoElement\<lparr>scrollLeft := 350\<rparr>)"
    "has_onPageScroll demoProps"
    "(100::real) = clientWidth (demoElement\<lparr>scrollLeft := 350\<rparr>) + pageMargin demoProps"
    "(0::real) < 100" "(350::real) = abs (scrollLeft (demoElement\<lparr>scrollLeft := 350\<rparr>))"
    by (simp_all add: demoOverscrolled_def demoProps_facts demoElement_facts)
  from emitPageScroll_position_not_clamped [OF h]
  show ?thesis
    using h(1,2) by (simp add: demoProps_facts clamp_def)
qed

section \<open>Drag sessions and the visual state\<close>

text \<open>
  A session with a single pointer-down: a pointer-down that the pager accepts, any events
  that are not pointer-down, pointer-up or pointer-cancel, and then a pointer-up or a
  pointer-cancel. When it ends, the text-selection style of the document body and the
  cursor of the scroller are back at the values they had before the pointer-down, and
  the saved pair, the start record and the drag flag are cleared.
\<close>

lemma single_pointer_down_session_restores:
  assumes "orientation p = Horizontal" and "scrollEnabledRef s" and "scrollerRef s = Some el"
    and "list_all keepsSession moves"
    and "release = PointerUp upId \<or> release = PointerCancel upId"
  shows "bodyUserSelect (run p (PointerDown downId clientX # moves @ [release]) s) = bodyUserSelect s
       \<and> map_option cursor (scrollerRef (run p (PointerDown downId clientX # moves @ [release]) s))
           = Some (cursor el)
       \<and> restoreRef (run p (PointerDown downId clientX # moves @ [release]) s) = None
       \<and> startRef (run p (PointerDown downId clientX # moves @ [release]) s) = None
       \<and> \<not> draggingRef (run p (PointerDown downId clientX # moves @ [release]) s)"
proof -
  let ?s1 = "run p moves (deliver p (PointerDown downId clientX) s)"
  have "visual ?s1 = (''none'', Some ''grabbing'', Some (bodyUserSelect s, cursor el), True)"
    using assms(1-4) by (simp add: run_keeps_visual deliver_def visual_onPointerDown)
  note fin = visual_endDrag [OF assms(1) this]
  have "deliver p release ?s1 = uncaught (endDrag p upId ?s1)"
    using assms(5) by (auto simp add: deliver_def onPointerUp_def onPointerCancel_def)
  then have "visual (run p (PointerDown downId clientX # moves @ [release]) s)
               = (bodyUserSelect s, Some (cursor el), None, False)"
    and "startRef (run p (PointerDown downId clientX # moves @ [release]) s) = None"
    using fin by (simp_all add: run_append)
  then show ?thesis
    by (simp add: visual_def)
qed

text \<open>
  Claim C8 fails on the component for a session in which a second pointer-down arrives
  before the release: \<open>onPointerDown\<close> does not test the drag flag and saves the values
  again, which are the suppressed ones by then. On a body with \<open>''text''\<close> and a cursor
  \<open>''grab''\<close>, two pointer-downs followed by the two releases leave \<open>''none''\<close> and
  \<open>''grabbing''\<close> with the session over, and a later session with a single pointer-down
  saves and restores those values, so the values from before the drag are lost.
\<close>

theorem second_pointer_down_session_not_restored:
  "bodyUserSelect demoPager = ''text''
   \<and> map_option cursor (scrollerRef demoPager) = Some ''grab''
   \<and> bodyUserSelect (run demoProps
        [PointerDown 1 0, PointerDown 2 5, PointerUp 1, PointerUp 2] demoPager) = ''none''
   \<and> map_option cursor (scrollerRef (run demoProps
        [PointerDown 1 0, PointerDown 2 5, PointerUp 1, PointerUp 2] demoPager)) = Some ''grabbing''
   \<and> restoreRef (run demoProps
        [PointerDown 1 0, PointerDown 2 5, PointerUp 1, PointerUp 2] demoPager) = None
   \<and> \<not> draggingRef (run demoProps
        [PointerDown 1 0, PointerDown 2 5, PointerUp 1, PointerUp 2] demoPager)
   \<and> bodyUserSelect (run demoProps
        [PointerDown 1 0, PointerDown 2 5, PointerCancel 1, PointerCancel 2,
         PointerDown 3 0, PointerUp 3] demoPager) = ''none''"
  by (simp add: demoPager_def demoProps_def demoElement_def model_defs round_def)

text \<open>
  Claim C10. The pointer-down handler does not ask whether a drag is already on. A second
  pointer-down during a session saves the suppressed values over the first pair, so the
  pointer-up that follows restores the text-selection style of the body to \<open>''none''\<close>
  (and the cursor to \<open>''grabbing''\<close>), whatever the style was before the drag.
\<close>

theorem second_pointer_down_overwrites_restore:
  assumes "orientation p = Horizontal" and "scrollEnabledRef s" and "scrollerRef s = Some el"
  shows "restoreRef (run p [PointerDown a x, PointerDown b y] s) = Some (''none'', ''grabbing'')
       \<and> bodyUserSelect (run p [PointerDown a x, PointerDown b y, PointerUp c] s) = ''none''
       \<and> map_option cursor (scrollerRef (run p [PointerDown a x, PointerDown b y, PointerUp c] s))
           = Some ''grabbing''
       \<and> \<not> draggingRef (run p [PointerDown a x, PointerDown b y, PointerUp c] s)"
proof -
  let ?s1 = "onPointerDown p a x s"
  have v1: "visual ?s1 = (''none'', Some ''grabbing'', Some (bodyUserSelect s, cursor el), True)"
    using assms by (rule visual_onPointerDown)
  then obtain el1 where el1: "scrollerRef ?s1 = Some el1" and c1: "cursor el1 = ''grabbing''"
    and b1: "bodyUserSelect ?s1 = ''none''"
    by (auto simp add: visual_def)
  have en1: "scrollEnabledRef ?s1"
    using assms(2) by (simp add: scrollEnabledRef_onPointerDown)
  let ?s2 = "onPointerDown p b y ?s1"
  have v2: "visual ?s2 = (''none'', Some ''grabbing'', Some (''none'', ''grabbing''), True)"
    using visual_onPointerDown [OF assms(1) en1 el1, of b y] by (simp add: b1 c1)
  have "visual (uncaught (endDrag p c ?s2)) = (''none'', Some ''grabbing'', None, False)"
    using assms(1) v2 by (rule visual_endDrag)
  with v2 show ?thesis
    by (simp add: deliver_def onPointerUp_def visual_def)
qed

theorem second_pointer_down_overwrites_restore_witness:
  "orientation demoProps = Horizontal \<and> scrollEnabledRef demoPager
   \<and> scrollerRef demoPager = Some demoElement
   \<and> bodyUserSelect demoPager = ''text''
   \<and> bodyUserSelect (run demoProps [PointerDown 1 0, PointerDown 2 5, PointerUp 1] demoPager)
        = ''none''"
proof -
  have h: "orientation demoProps = Horizontal" "scrollEnabledRef demoPager"
    "scrollerRef demoPager = Some demoElement"
    by (simp_all add: demoProps_def demoPager_def initialState_def)
  have c: "bodyUserSelect demoPager = ''text''"
    by (simp add: demoPager_def initialState_def)
  from second_pointer_down_overwrites_restore [OF h, of 1 0 2 5 1]
  show ?thesis
    using h c by simp
qed

end
